theory Spec2Isabelle
  imports Main "HOL-Library.Word" "HOL-Library.Sublist" "HOL-Library.Multiset"
begin

section \<open>JavaScript strings\<close>

text \<open>
  A JavaScript string is a sequence of UTF-16 code units; \<open>s.length\<close> counts code units,
  \<open>s.startsWith(t)\<close> is \<open>prefix t s\<close> and \<open>s.endsWith(t)\<close> is \<open>suffix t s\<close>.
  ASCII literals of the source are written \<open>js ''...''\<close>.
\<close>

type_synonym unit16 = "16 word"
type_synonym jsstring = "unit16 list"

definition js :: "string \<Rightarrow> jsstring" where
  "js s = map of_char s"

section \<open>The file resource (getFileResource, tools/projectStructure.ts lines 251--316)\<close>

text \<open>
  \<open>getFileResource\<close> parses the resource URI, resolves the path, applies the containment
  check when a \<open>root\<close> query parameter is given, then checks kind and size of the target
  before reading it. Every \<open>throw\<close> of the source is a constructor of \<open>file_error\<close>; the
  outer \<open>catch\<close> rethrows each of them with the prefix \<open>Failed to read file:\<close>, so the
  constructor stands for the message that follows the prefix.
\<close>

datatype file_error =
    Rejected            \<comment> \<open>a built-in or file-system call threw: \<open>new URL\<close>,
                            \<open>decodeURIComponent\<close>, \<open>fs.realpath\<close>, \<open>fs.stat\<close>, \<open>fs.readFile\<close>\<close>
  | InvalidResourceHost \<comment> \<open>Invalid resource host; expected project://file/{path}\<close>
  | FilePathRequired    \<comment> \<open>File path is required\<close>
  | AccessDenied        \<comment> \<open>Access denied: file is outside of the allowed project root\<close>
  | NotAFile            \<comment> \<open>Requested path is not a file\<close>
  | FileTooLarge nat nat \<comment> \<open>File too large (size bytes). Max allowed is MAX\_BYTES bytes\<close>

record url =
  url_hostname :: jsstring
  url_pathname :: jsstring
  url_root :: "jsstring option"   \<comment> \<open>\<open>url.searchParams.get('root')\<close>, \<open>None\<close> for \<open>null\<close>\<close>

record stats =
  st_isFile :: bool
  st_size :: nat
  st_mtime :: jsstring            \<comment> \<open>\<open>stats.mtime.toISOString()\<close>\<close>

text \<open>The file system and the built-ins the function calls are parameters of the model.\<close>

record filesystem =
  fs_realpath :: "jsstring \<Rightarrow> jsstring option"
  fs_stat :: "jsstring \<Rightarrow> stats option"
  fs_readFile :: "jsstring \<Rightarrow> jsstring option"

record platform =
  is_win32 :: bool
  path_sep :: unit16
  parseURL :: "jsstring \<Rightarrow> url option"
  decodeURIComponent :: "jsstring \<Rightarrow> jsstring option"
  path_resolve :: "jsstring \<Rightarrow> jsstring"
  path_extname :: "jsstring \<Rightarrow> jsstring"
  toLowerCase :: "jsstring \<Rightarrow> jsstring"

record file_resource =
  res_uri :: jsstring
  res_mimeType :: jsstring
  res_text :: jsstring
  meta_size :: nat
  meta_modified :: jsstring
  meta_extension :: jsstring

definition is_letter :: "unit16 \<Rightarrow> bool" where
  "is_letter c = ((65 \<le> c \<and> c \<le> 90) \<or> (97 \<le> c \<and> c \<le> 122))"

text \<open>The test \<open>/^\/[A-Za-z]:\//.test(filePath)\<close>.\<close>

fun drive_prefixed :: "jsstring \<Rightarrow> bool" where
  "drive_prefixed (a # b # c # d # _) = (a = 47 \<and> is_letter b \<and> c = 58 \<and> d = 47)"
| "drive_prefixed _ = False"

text \<open>The value of \<open>filePath\<close> after the drive-letter fix and \<open>path.resolve\<close>.\<close>

definition filePath_of :: "platform \<Rightarrow> jsstring \<Rightarrow> jsstring" where
  "filePath_of plat p =
     path_resolve plat (if is_win32 plat \<and> drive_prefixed p then drop 1 p else p)"

text \<open>The constant \<open>normalizedRoot\<close> of the containment check.\<close>

definition normalizedRoot :: "platform \<Rightarrow> jsstring \<Rightarrow> jsstring" where
  "normalizedRoot plat realRoot =
     (if suffix [path_sep plat] realRoot then realRoot else realRoot @ [path_sep plat])"

definition MAX_BYTES :: nat where
  "MAX_BYTES = 2 * 1024 * 1024"

text \<open>
  The containment block: skipped when \<open>root\<close> is \<open>null\<close> or the empty string (both falsy);
  \<open>Promise.all\<close> rejects when either \<open>realpath\<close> does.
\<close>

definition containment :: "platform \<Rightarrow> filesystem \<Rightarrow> jsstring option \<Rightarrow> jsstring \<Rightarrow> file_error option" where
  "containment plat fs root filePath =
     (case root of
        None \<Rightarrow> None
      | Some r \<Rightarrow>
          if r = [] then None
          else (case (fs_realpath fs r, fs_realpath fs filePath) of
                  (Some realRoot, Some realTarget) \<Rightarrow>
                    if realTarget \<noteq> realRoot \<and> \<not> prefix (normalizedRoot plat realRoot) realTarget
                    then Some AccessDenied else None
                | _ \<Rightarrow> Some Rejected))"

text \<open>The body of \<open>getFileResource\<close> from the \<open>fs.stat\<close> call to the \<open>return\<close>.\<close>

definition stat_and_read :: "platform \<Rightarrow> filesystem \<Rightarrow> jsstring \<Rightarrow> jsstring \<Rightarrow> file_error + file_resource" where
  "stat_and_read plat fs uri filePath =
     (case fs_stat fs filePath of
        None \<Rightarrow> Inl Rejected
      | Some st \<Rightarrow>
          if \<not> st_isFile st then Inl NotAFile
          else if st_size st > MAX_BYTES then Inl (FileTooLarge (st_size st) MAX_BYTES)
          else (case fs_readFile fs filePath of
                  None \<Rightarrow> Inl Rejected
                | Some content \<Rightarrow>
                    let ext = toLowerCase plat (path_extname plat filePath);
                        mimeType = (if ext = js ''.json'' then js ''application/json''
                                    else js ''text/plain'')
                    in Inr \<lparr>res_uri = uri, res_mimeType = mimeType, res_text = content,
                            meta_size = st_size st, meta_modified = st_mtime st,
                            meta_extension = ext\<rparr>))"

definition getFileResource :: "platform \<Rightarrow> filesystem \<Rightarrow> jsstring \<Rightarrow> file_error + file_resource" where
  "getFileResource plat fs uri =
     (case parseURL plat uri of
        None \<Rightarrow> Inl Rejected
      | Some u \<Rightarrow>
          if url_hostname u \<noteq> js ''file'' then Inl InvalidResourceHost
          else (case decodeURIComponent plat (url_pathname u) of
            None \<Rightarrow> Inl Rejected
          | Some p \<Rightarrow>
              if p = [] then Inl FilePathRequired
              else let filePath = filePath_of plat p in
                (case containment plat fs (url_root u) filePath of
                   Some e \<Rightarrow> Inl e
                 | None \<Rightarrow> stat_and_read plat fs uri filePath)))"

text \<open>A POSIX platform and a small file system, used to run the model on concrete requests.\<close>

definition posix :: platform where
  "posix = \<lparr>is_win32 = False, path_sep = 47,
            parseURL = (\<lambda>uri.
               if uri = js ''project://file/etc/passwd?root=/''
               then Some \<lparr>url_hostname = js ''file'', url_pathname = js ''/etc/passwd'', url_root = Some (js ''/'')\<rparr>
               else if uri = js ''project://file/a/b/c.json?root=/a/b''
               then Some \<lparr>url_hostname = js ''file'', url_pathname = js ''/a/b/c.json'', url_root = Some (js ''/a/b'')\<rparr>
               else if uri = js ''project://file/a/bc?root=/a/b''
               then Some \<lparr>url_hostname = js ''file'', url_pathname = js ''/a/bc'', url_root = Some (js ''/a/b'')\<rparr>
               else if uri = js ''project://file/a/bc''
               then Some \<lparr>url_hostname = js ''file'', url_pathname = js ''/a/bc'', url_root = None\<rparr>
               else if uri = js ''project://file/etc/passwd?root=''
               then Some \<lparr>url_hostname = js ''file'', url_pathname = js ''/etc/passwd'', url_root = Some []\<rparr>
               else if uri = js ''project://file/a/big?root=/a''
               then Some \<lparr>url_hostname = js ''file'', url_pathname = js ''/a/big'', url_root = Some (js ''/a'')\<rparr>
               else None),
            decodeURIComponent = Some,
            path_resolve = (\<lambda>p. p),
            path_extname = (\<lambda>p. if suffix (js ''.json'') p then js ''.json'' else []),
            toLowerCase = (\<lambda>s. s)\<rparr>"

definition disk :: filesystem where
  "disk = \<lparr>fs_realpath = (\<lambda>p. if p = [] then None else Some p),
           fs_stat = (\<lambda>p.
              if p = js ''/a/big'' then Some \<lparr>st_isFile = True, st_size = 3 * 1024 * 1024, st_mtime = js ''2024-01-01T00:00:00.000Z''\<rparr>
              else if p = js ''/a/b'' \<or> p = js ''/a'' \<or> p = js ''/''
              then Some \<lparr>st_isFile = False, st_size = 4096, st_mtime = js ''2024-01-01T00:00:00.000Z''\<rparr>
              else Some \<lparr>st_isFile = True, st_size = 2, st_mtime = js ''2024-01-01T00:00:00.000Z''\<rparr>),
           fs_readFile = (\<lambda>p. Some (js ''{}''))\<rparr>"

text \<open>
  The criterion of the specification, in its words: the resolved target equals the resolved
  root, or begins with the resolved root followed by one separator.
\<close>

definition spec_isAllowed :: "platform \<Rightarrow> jsstring \<Rightarrow> jsstring \<Rightarrow> bool" where
  "spec_isAllowed plat realRoot realTarget =
     (realTarget = realRoot \<or> prefix (realRoot @ [path_sep plat]) realTarget)"

section \<open>The context cache (tools/projectStructure.ts lines 318--399, resources/index.ts lines 73--154)\<close>

text \<open>
  \<open>contextCache\<close> is a JavaScript \<open>Map\<close> from hash to \<open>{timestamp, data}\<close>. A \<open>Map\<close>
  iterates in insertion order, and the eviction sorts \<open>Array.from(contextCache.entries())\<close>
  with a stable sort, so the cache is an association list in insertion order whose keys are
  distinct: \<open>set\<close> on a present key keeps its position, \<open>set\<close> on a new key appends.
\<close>

datatype 'j nullable = Null | Val 'j

text \<open>
  The context object. A field that the code may leave unset is an option; \<open>git\<close> is set to
  \<open>null\<close> or to a parsed value. The parsed JSON documents of the providers have type \<open>'j\<close>.
  The record does not keep the order of the keys.
\<close>

record 'j payload =
  ctx_generated :: jsstring
  ctx_projectPath :: jsstring
  ctx_hash :: jsstring
  ctx_structure :: "'j option"
  ctx_structureError :: "jsstring option"
  ctx_git :: "'j nullable option"
  ctx_relevantFiles :: "'j option"
  ctx_filesError :: "jsstring option"
  ctx_cached :: "bool option"
  ctx_previousHash :: "jsstring option"

record 'j entry =
  timestamp :: int
  data :: "'j payload"

type_synonym 'j cache = "(jsstring \<times> 'j entry) list"

definition wf_cache :: "'j cache \<Rightarrow> bool" where
  "wf_cache c = distinct (map fst c)"

definition cache_get :: "'j cache \<Rightarrow> jsstring \<Rightarrow> 'j entry option" where
  "cache_get c k = map_of c k"

fun cache_set :: "jsstring \<Rightarrow> 'j entry \<Rightarrow> 'j cache \<Rightarrow> 'j cache" where
  "cache_set k v [] = [(k, v)]"
| "cache_set k v ((k', v') # c) = (if k' = k then (k, v) # c else (k', v') # cache_set k v c)"

definition cache_delete :: "jsstring \<Rightarrow> 'j cache \<Rightarrow> 'j cache" where
  "cache_delete k c = filter (\<lambda>kv. fst kv \<noteq> k) c"

definition CACHE_TTL :: int where
  "CACHE_TTL = 5 * 60 * 1000"

text \<open>
  \<open>JSON.stringify(params)\<close> for \<open>params = { projectPath, taskDescription }\<close>, after
  ECMA-262 (\<open>SerializeJSONObject\<close>, \<open>QuoteJSONString\<close>): the keys in insertion order, a key
  whose value is \<open>undefined\<close> left out, every string quoted. Quoting writes the short
  escapes for backspace, tab, line feed, form feed, carriage return, the quote and the
  backslash, a backslash, \<open>u\<close> and four lowercase hexadecimal digits for the other code units
  below 32 and for a
  surrogate that is not part of a pair, and every other code unit as it is.
\<close>

definition hex_digit :: "nat \<Rightarrow> unit16" where
  "hex_digit n = (if n < 10 then 48 + of_nat n else 87 + of_nat n)"

definition UnicodeEscape :: "unit16 \<Rightarrow> jsstring" where
  "UnicodeEscape c =
     [92, 117, hex_digit (unat c div 4096), hex_digit (unat c div 256 mod 16),
      hex_digit (unat c div 16 mod 16), hex_digit (unat c mod 16)]"

definition leading_surrogate :: "unit16 \<Rightarrow> bool" where
  "leading_surrogate c = (0xD800 \<le> c \<and> c \<le> 0xDBFF)"

definition trailing_surrogate :: "unit16 \<Rightarrow> bool" where
  "trailing_surrogate c = (0xDC00 \<le> c \<and> c \<le> 0xDFFF)"

fun quote_units :: "jsstring \<Rightarrow> jsstring" where
  "quote_units [] = []"
| "quote_units (c # cs) =
     (if c = 8 then [92, 98] @ quote_units cs
      else if c = 9 then [92, 116] @ quote_units cs
      else if c = 10 then [92, 110] @ quote_units cs
      else if c = 12 then [92, 102] @ quote_units cs
      else if c = 13 then [92, 114] @ quote_units cs
      else if c = 34 then [92, 34] @ quote_units cs
      else if c = 92 then [92, 92] @ quote_units cs
      else if c < 32 then UnicodeEscape c @ quote_units cs
      else if leading_surrogate c then
        (case cs of
           d # ds \<Rightarrow> if trailing_surrogate d then c # d # quote_units ds
                     else UnicodeEscape c @ quote_units cs
         | [] \<Rightarrow> UnicodeEscape c)
      else if trailing_surrogate c then UnicodeEscape c @ quote_units cs
      else c # quote_units cs)"

definition QuoteJSONString :: "jsstring \<Rightarrow> jsstring" where
  "QuoteJSONString s = 34 # quote_units s @ [34]"

definition JSON_stringify_params :: "jsstring \<Rightarrow> jsstring option \<Rightarrow> jsstring" where
  "JSON_stringify_params projectPath taskDescription =
     [123] @ QuoteJSONString (js ''projectPath'') @ [58] @ QuoteJSONString projectPath
     @ (case taskDescription of
          None \<Rightarrow> []
        | Some task \<Rightarrow> [44] @ QuoteJSONString (js ''taskDescription'') @ [58] @ QuoteJSONString task)
     @ [125]"

text \<open>The part of the serialisation that follows the quoted path.\<close>

definition params_tail :: "jsstring option \<Rightarrow> jsstring" where
  "params_tail t =
     (case t of
        None \<Rightarrow> []
      | Some task \<Rightarrow> [44] @ QuoteJSONString (js ''taskDescription'') @ [58] @ QuoteJSONString task)
     @ [125]"

text \<open>
  A reader for quoted strings, used to show that the quoting loses nothing: it decodes up to
  the first quote that is not escaped and returns the decoded text and what follows.
\<close>

definition unhex :: "unit16 \<Rightarrow> nat" where
  "unhex d = (if d < 58 then unat d - 48 else unat d - 87)"

definition unescape :: "unit16 \<Rightarrow> unit16 option" where
  "unescape e =
     (if e = 98 then Some 8 else if e = 116 then Some 9 else if e = 110 then Some 10
      else if e = 102 then Some 12 else if e = 114 then Some 13
      else if e = 34 then Some 34 else if e = 92 then Some 92 else None)"

fun unquote_units :: "jsstring \<Rightarrow> (jsstring \<times> jsstring) option" where
  "unquote_units [] = None"
| "unquote_units (c # cs) =
     (if c = 34 then Some ([], cs)
      else if c = 92 then
        (case cs of
           [] \<Rightarrow> None
         | e # es \<Rightarrow>
             if e = 117 then
               (case es of
                  h3 # h2 # h1 # h0 # rest \<Rightarrow>
                    map_option (\<lambda>(s, r). (of_nat (unhex h3 * 4096 + unhex h2 * 256 + unhex h1 * 16 + unhex h0) # s, r))
                      (unquote_units rest)
                | _ \<Rightarrow> None)
             else (case unescape e of
                     None \<Rightarrow> None
                   | Some u \<Rightarrow> map_option (\<lambda>(s, r). (u # s, r)) (unquote_units es)))
      else map_option (\<lambda>(s, r). (c # s, r)) (unquote_units cs))"

text \<open>
  The three providers and the digest are external. A provider call together with the
  \<open>JSON.parse\<close> of its text is one step of a \<open>try\<close> block: \<open>Inr\<close> the parsed document, or
  \<open>Inl (String(error))\<close> when either throws. The arguments are those of the source:
  \<open>{path, maxDepth}\<close>, \<open>{projectPath, includeDiff, commitCount}\<close>,
  \<open>{projectPath, taskDescription, maxFiles}\<close>.
\<close>

record 'j services =
  digest_hex :: "jsstring \<Rightarrow> jsstring"
  getProjectStructure :: "jsstring \<Rightarrow> int \<Rightarrow> jsstring + 'j"
  getGitContext :: "jsstring \<Rightarrow> bool \<Rightarrow> int \<Rightarrow> jsstring + 'j"
  smartFileSelection :: "jsstring \<Rightarrow> jsstring \<Rightarrow> int \<Rightarrow> jsstring + 'j"

text \<open>
  The clock is read three times in one call, with awaits in between: \<open>Date.now()\<close> at the
  cache check, \<open>new Date().toISOString()\<close> for \<open>generated\<close>, \<open>Date.now()\<close> at the store.
\<close>

record clock =
  now_check :: int
  generated_iso :: jsstring
  now_store :: int

definition generateContextHash :: "'j services \<Rightarrow> jsstring \<Rightarrow> jsstring option \<Rightarrow> jsstring" where
  "generateContextHash sv projectPath taskDescription =
     digest_hex sv (JSON_stringify_params projectPath taskDescription)"

text \<open>The three \<open>try\<close> blocks that fill the fresh context.\<close>

definition aggregate :: "'j services \<Rightarrow> jsstring \<Rightarrow> jsstring \<Rightarrow> jsstring \<Rightarrow> jsstring option \<Rightarrow> 'j payload" where
  "aggregate sv generated hash projectPath taskDescription =
     (let context0 = \<lparr>ctx_generated = generated, ctx_projectPath = projectPath, ctx_hash = hash,
                       ctx_structure = None, ctx_structureError = None, ctx_git = None,
                       ctx_relevantFiles = None, ctx_filesError = None, ctx_cached = None,
                       ctx_previousHash = None\<rparr>;
          context1 = (case getProjectStructure sv projectPath 3 of
                        Inr structure \<Rightarrow> context0\<lparr>ctx_structure := Some structure\<rparr>
                      | Inl err \<Rightarrow> context0\<lparr>ctx_structureError := Some err\<rparr>);
          context2 = (case getGitContext sv projectPath False 5 of
                        Inr git \<Rightarrow> context1\<lparr>ctx_git := Some (Val git)\<rparr>
                      | Inl err \<Rightarrow> context1\<lparr>ctx_git := Some Null\<rparr>)
      in (case taskDescription of
            None \<Rightarrow> context2
          | Some task \<Rightarrow>
              if task = [] then context2
              else (case smartFileSelection sv projectPath task 15 of
                      Inr files \<Rightarrow> context2\<lparr>ctx_relevantFiles := Some files\<rparr>
                    | Inl err \<Rightarrow> context2\<lparr>ctx_filesError := Some err\<rparr>)))"

text \<open>
  \<open>entries.sort((a, b) => b[1].timestamp - a[1].timestamp)\<close>: a stable sort, newest
  timestamp first.
\<close>

definition sort_newest_first :: "'j cache \<Rightarrow> 'j cache" where
  "sort_newest_first c = sort_key (\<lambda>kv. - timestamp (snd kv)) c"

text \<open>
  The clean-up of tools/projectStructure.ts (lines 388--396), which deletes in place:
  \<open>for (let i = 50; i < entries.length; i += 1) contextCache.delete(entries[i][0])\<close>.
\<close>

definition evict_in_place :: "'j cache \<Rightarrow> 'j cache" where
  "evict_in_place c =
     (if length c > 50
      then fold (\<lambda>kv c'. cache_delete (fst kv) c') (drop 50 (sort_newest_first c)) c
      else c)"

text \<open>
  The clean-up of resources/index.ts (lines 143--151), which clears the map and sets the
  first 50 sorted entries again.
\<close>

definition evict_rebuild :: "'j cache \<Rightarrow> 'j cache" where
  "evict_rebuild c =
     (if length c > 50
      then fold (\<lambda>kv c'. cache_set (fst kv) (snd kv) c') (take 50 (sort_newest_first c)) []
      else c)"

text \<open>
  \<open>getOrCreateContext\<close>, with the clean-up as a parameter; it returns the context and the
  cache it leaves. On a hit the result is the spread copy
  \<open>{ ...cached.data, cached: true, hash }\<close> and the cache is not touched.
\<close>

definition getOrCreateContext_with ::
  "('j cache \<Rightarrow> 'j cache) \<Rightarrow> 'j services \<Rightarrow> clock \<Rightarrow> 'j cache \<Rightarrow> jsstring \<Rightarrow> jsstring option
   \<Rightarrow> 'j payload \<times> 'j cache" where
  "getOrCreateContext_with cleanup sv clk c projectPath taskDescription =
     (let hash = generateContextHash sv projectPath taskDescription;
          miss = (let ctx = aggregate sv (generated_iso clk) hash projectPath taskDescription
                  in (ctx, cleanup (cache_set hash \<lparr>timestamp = now_store clk, data = ctx\<rparr> c)))
      in (case cache_get c hash of
            None \<Rightarrow> miss
          | Some cached \<Rightarrow>
              if now_check clk - timestamp cached < CACHE_TTL
              then ((data cached)\<lparr>ctx_cached := Some True, ctx_hash := hash\<rparr>, c)
              else miss))"

definition getOrCreateContext ::
  "'j services \<Rightarrow> clock \<Rightarrow> 'j cache \<Rightarrow> jsstring \<Rightarrow> jsstring option \<Rightarrow> 'j payload \<times> 'j cache" where
  "getOrCreateContext = getOrCreateContext_with evict_in_place"

definition getOrCreateContext_rebuild ::
  "'j services \<Rightarrow> clock \<Rightarrow> 'j cache \<Rightarrow> jsstring \<Rightarrow> jsstring option \<Rightarrow> 'j payload \<times> 'j cache" where
  "getOrCreateContext_rebuild = getOrCreateContext_with evict_rebuild"

text \<open>
  Concrete services, clock readings and caches, used to run the model: the structure and
  relevance providers succeed, the version-control provider throws; \<open>full_cache\<close> holds 50
  entries with the keys \<open>a\<close>, \<open>aa\<close>, and so on, and the timestamps 0 to 49.
\<close>

definition svc :: "nat services" where
  "svc = \<lparr>digest_hex = (\<lambda>s. s),
          getProjectStructure = (\<lambda>p d. Inr 1),
          getGitContext = (\<lambda>p i n. Inl (js ''Error: not a git repository'')),
          smartFileSelection = (\<lambda>p t n. Inr 2)\<rparr>"

definition clock_at :: "int \<Rightarrow> clock" where
  "clock_at t = \<lparr>now_check = t, generated_iso = js ''T'', now_store = t + 5\<rparr>"

definition blank :: "nat payload" where
  "blank = \<lparr>ctx_generated = [], ctx_projectPath = [], ctx_hash = [],
            ctx_structure = None, ctx_structureError = None, ctx_git = None,
            ctx_relevantFiles = None, ctx_filesError = None, ctx_cached = None,
            ctx_previousHash = None\<rparr>"

definition full_cache :: "nat cache" where
  "full_cache = map (\<lambda>i. (replicate (Suc i) 97, \<lparr>timestamp = int i, data = blank\<rparr>)) [0..<50]"

text \<open>
  The keys of the requests for \<open>/p\<close> without a task and with the task \<open>fix\<close> under \<open>svc\<close>,
  whose digest is the identity, and the payload that the first request for \<open>/p\<close> stores.
\<close>

definition key_p :: jsstring where
  "key_p = JSON_stringify_params (js ''/p'') None"


definition stored_payload :: "nat payload" where
  "stored_payload = \<lparr>ctx_generated = js ''T'', ctx_projectPath = js ''/p'', ctx_hash = key_p,
            ctx_structure = Some 1, ctx_structureError = None, ctx_git = Some Null,
            ctx_relevantFiles = None, ctx_filesError = None, ctx_cached = None,
            ctx_previousHash = None\<rparr>"

section \<open>The regex safety check (isRegexSafe, tools/search.ts lines 30--43)\<close>

text \<open>
  The four detector literals of \<open>isRegexSafe\<close> use only literal characters, the dot and the
  dot under a star (the capturing group does not change what \<open>test\<close> answers). A detector is
  a list of such pieces. \<open>match_here r s\<close> says that \<open>r\<close> matches a prefix of \<open>s\<close>;
  \<open>regex_test r s\<close> is \<open>r.test(s)\<close> for a regex without flags: a match starting at some
  position. The dot matches every code unit except the four line terminators.
\<close>

datatype atom = Lit unit16 | Dot

datatype piece = One atom | Star atom

type_synonym regex = "piece list"

definition lineTerminator :: "unit16 \<Rightarrow> bool" where
  "lineTerminator c = (c = 0x0A \<or> c = 0x0D \<or> c = 0x2028 \<or> c = 0x2029)"

fun atom_matches :: "atom \<Rightarrow> unit16 \<Rightarrow> bool" where
  "atom_matches (Lit a) c = (c = a)"
| "atom_matches Dot c = (\<not> lineTerminator c)"

fun match_here :: "regex \<Rightarrow> jsstring \<Rightarrow> bool" where
  "match_here [] s = True"
| "match_here (One a # r) [] = False"
| "match_here (One a # r) (c # s) = (atom_matches a c \<and> match_here r s)"
| "match_here (Star a # r) [] = match_here r []"
| "match_here (Star a # r) (c # s) =
     (match_here r (c # s) \<or> (atom_matches a c \<and> match_here (Star a # r) s))"

fun regex_test :: "regex \<Rightarrow> jsstring \<Rightarrow> bool" where
  "regex_test r [] = match_here r []"
| "regex_test r (c # s) = (match_here r (c # s) \<or> regex_test r s)"

text \<open>
  \<open>/(\(.*Q.*\))R/\<close> for the quantifier characters \<open>Q\<close> (inside the group) and \<open>R\<close>
  (after it); \<open>(\<close> is 40, \<open>)\<close> is 41, \<open>*\<close> is 42 and \<open>+\<close> is 43.
\<close>

definition nested :: "unit16 \<Rightarrow> unit16 \<Rightarrow> regex" where
  "nested inner outer =
     [One (Lit 40), Star Dot, One (Lit inner), Star Dot, One (Lit 41), One (Lit outer)]"

definition dangerous :: "regex list" where
  "dangerous = [nested 43 43, nested 42 42, nested 43 42, nested 42 43]"

definition isRegexSafe :: "jsstring \<Rightarrow> nat \<Rightarrow> bool" where
  "isRegexSafe pattern maxLength =
     (if length pattern = 0 \<or> length pattern > maxLength then False
      else \<not> list_ex (\<lambda>regex. regex_test regex pattern) dangerous)"

section \<open>The codebase search (tools/search.ts lines 45--228)\<close>

datatype searchType = Text | Regex | Semantic

record SearchArgs =
  arg_projectPath :: jsstring
  arg_query :: jsstring
  arg_searchType :: "searchType option"   \<comment> \<open>\<open>None\<close> for \<open>undefined\<close>: the default is \<open>'text'\<close>\<close>
  arg_filePattern :: "jsstring option"

record SearchResult =
  sr_file :: jsstring
  sr_line :: nat
  sr_column :: nat
  sr_match :: jsstring
  sr_context :: jsstring

record search_response =
  resp_query :: jsstring
  resp_searchType :: searchType
  resp_results :: "SearchResult list"
  totalMatches :: nat
  filesSearched :: nat
  filesWithMatches :: nat
  truncated :: bool

text \<open>
  The throws of \<open>searchCodebase\<close>; its \<open>catch\<close> rethrows each with the prefix
  \<open>Failed to search codebase:\<close>.
\<close>

datatype search_error =
    Thrown                 \<comment> \<open>\<open>fs.stat\<close> or \<open>glob\<close> rejected\<close>
  | ProjectPathRequired    \<comment> \<open>projectPath is required\<close>
  | ProjectPathNotAbsolute \<comment> \<open>projectPath must be an absolute path\<close>
  | ProjectPathNotDirectory \<comment> \<open>projectPath must be a directory\<close>
  | QueryRequired          \<comment> \<open>query is required\<close>

text \<open>
  The built-ins and libraries the search calls. \<open>compile\<close> is \<open>new RegExp(source, 'gi')\<close>,
  \<open>None\<close> for a syntax error. \<open>exec rx line lastIndex\<close> is \<open>regex.exec(line)\<close> of a global
  regex whose \<open>lastIndex\<close> has the given value: \<open>None\<close> for \<open>null\<close>, else the index and the
  text of the match, after which \<open>lastIndex\<close> is the index plus the length of the text.
  \<open>ignores gitignore rel\<close> is \<open>ig.ignores(rel)\<close> for the ignore object built from the
  content of \<open>.gitignore\<close> (if readable) and the default patterns.
\<close>

record 'rx search_env =
  stat_isDirectory :: "jsstring \<Rightarrow> bool option"
  readFile :: "jsstring \<Rightarrow> jsstring option"
  path_isAbsolute :: "jsstring \<Rightarrow> bool"
  path_join :: "jsstring \<Rightarrow> jsstring \<Rightarrow> jsstring"
  path_relative :: "jsstring \<Rightarrow> jsstring \<Rightarrow> jsstring"
  trim :: "jsstring \<Rightarrow> jsstring"
  glob :: "jsstring \<Rightarrow> jsstring \<Rightarrow> jsstring list option"
  ignores :: "jsstring option \<Rightarrow> jsstring \<Rightarrow> bool"
  compile :: "jsstring \<Rightarrow> 'rx option"
  exec :: "'rx \<Rightarrow> jsstring \<Rightarrow> nat \<Rightarrow> (nat \<times> jsstring) option"

definition getMatchingFiles :: "'rx search_env \<Rightarrow> jsstring \<Rightarrow> jsstring option \<Rightarrow> jsstring list option" where
  "getMatchingFiles env projectPath pattern =
     (let gitignore = readFile env (path_join env projectPath (js ''.gitignore''));
          globPattern = (case pattern of
                           None \<Rightarrow> js ''**/*''
                         | Some p \<Rightarrow> if p = [] then js ''**/*'' else p)
      in (case glob env globPattern projectPath of
            None \<Rightarrow> None
          | Some files \<Rightarrow>
              Some (filter (\<lambda>file. \<not> ignores env gitignore (path_relative env projectPath file)) files)))"

text \<open>\<open>content.split('\n')\<close> and \<open>lines.join('\n')\<close>.\<close>

fun split_on :: "unit16 \<Rightarrow> jsstring \<Rightarrow> jsstring list" where
  "split_on c [] = [[]]"
| "split_on c (x # xs) =
     (if x = c then [] # split_on c xs
      else (case split_on c xs of l # ls \<Rightarrow> (x # l) # ls | [] \<Rightarrow> [[x]]))"

fun join_with :: "unit16 \<Rightarrow> jsstring list \<Rightarrow> jsstring" where
  "join_with c [] = []"
| "join_with c [l] = l"
| "join_with c (l # ls) = l @ c # join_with c ls"

text \<open>\<open>query.replace(/[.*+?^${}()|[\]\\]/g, '\\$&')\<close>: a backslash before each special character.\<close>

definition escapeRegExp :: "jsstring \<Rightarrow> jsstring" where
  "escapeRegExp q =
     concat (map (\<lambda>c. if c \<in> set (js ''.*+?^${}()|[]'') \<or> c = 92 then [92, c] else [c]) q)"

text \<open>
  The \<open>while ((match = regex.exec(line)) !== null)\<close> loop on line \<open>i\<close>. It need not
  terminate (a regex that matches the empty string never advances \<open>lastIndex\<close>), so the
  loop is a partial function and \<open>None\<close> is a search that does not return.
\<close>

partial_function (option) exec_loop ::
  "'rx search_env \<Rightarrow> 'rx \<Rightarrow> jsstring \<Rightarrow> jsstring list \<Rightarrow> nat \<Rightarrow> nat \<Rightarrow> SearchResult list
   \<Rightarrow> SearchResult list option" where
  "exec_loop env regex filePath lines i lastIndex results =
     (case exec env regex (lines ! i) lastIndex of
        None \<Rightarrow> Some results
      | Some (index, text) \<Rightarrow>
          exec_loop env regex filePath lines i (index + length text)
            (results @ [\<lparr>sr_file = filePath, sr_line = i + 1, sr_column = index + 1,
                         sr_match = text,
                         sr_context = join_with 10
                           (take (min (length lines) (i + 3) - (i - 2)) (drop (i - 2) lines))\<rparr>]))"

text \<open>The \<open>for\<close> loop over the lines, \<open>regex.lastIndex = 0\<close> before each line.\<close>

fun search_lines ::
  "'rx search_env \<Rightarrow> 'rx \<Rightarrow> jsstring \<Rightarrow> jsstring list \<Rightarrow> nat list \<Rightarrow> SearchResult list
   \<Rightarrow> SearchResult list option" where
  "search_lines env regex filePath lines [] results = Some results"
| "search_lines env regex filePath lines (i # is) results =
     (case exec_loop env regex filePath lines i 0 results of
        None \<Rightarrow> None
      | Some results' \<Rightarrow> search_lines env regex filePath lines is results')"

text \<open>
  \<open>searchInFile\<close>. Everything from \<open>readFile\<close> on is inside one \<open>try\<close> whose \<open>catch\<close> is
  empty, so a rejected read, the two \<open>throw\<close>s of the regex branch and a syntax error of the
  escaped text all end in \<open>return results\<close>, which is still empty at those points.
\<close>

definition searchInFile ::
  "'rx search_env \<Rightarrow> jsstring \<Rightarrow> jsstring \<Rightarrow> searchType \<Rightarrow> SearchResult list option" where
  "searchInFile env filePath query searchType =
     (case readFile env filePath of
        None \<Rightarrow> Some []
      | Some content \<Rightarrow>
          let lines = split_on 10 content;
              regex = (if searchType = Regex
                       then (if \<not> isRegexSafe query 200 then None else compile env query)
                       else compile env (escapeRegExp query))
          in (case regex of
                None \<Rightarrow> Some []
              | Some rx \<Rightarrow> search_lines env rx filePath lines [0..<length lines] []))"

text \<open>\<open>Promise.all(files.map(file => searchInFile(file, query, searchType)))\<close>.\<close>

fun search_files ::
  "'rx search_env \<Rightarrow> jsstring \<Rightarrow> searchType \<Rightarrow> jsstring list \<Rightarrow> SearchResult list list option" where
  "search_files env query searchType [] = Some []"
| "search_files env query searchType (file # files) =
     (case searchInFile env file query searchType of
        None \<Rightarrow> None
      | Some r \<Rightarrow>
          (case search_files env query searchType files of
             None \<Rightarrow> None
           | Some rs \<Rightarrow> Some (r # rs)))"

definition maxResults :: nat where
  "maxResults = 100"

definition searchCodebase :: "'rx search_env \<Rightarrow> SearchArgs \<Rightarrow> (search_error + search_response) option" where
  "searchCodebase env args =
     (let projectPath = arg_projectPath args;
          query = arg_query args;
          searchType = (case arg_searchType args of None \<Rightarrow> Text | Some ty \<Rightarrow> ty)
      in if projectPath = [] then Some (Inl ProjectPathRequired)
         else if \<not> path_isAbsolute env projectPath then Some (Inl ProjectPathNotAbsolute)
         else (case stat_isDirectory env projectPath of
                 None \<Rightarrow> Some (Inl Thrown)
               | Some isDir \<Rightarrow>
                   if \<not> isDir then Some (Inl ProjectPathNotDirectory)
                   else if query = [] \<or> trim env query = [] then Some (Inl QueryRequired)
                   else (case getMatchingFiles env projectPath (arg_filePattern args) of
                           None \<Rightarrow> Some (Inl Thrown)
                         | Some files \<Rightarrow>
                             (case search_files env query
                                     (if searchType = Semantic then Text else searchType) files of
                                None \<Rightarrow> None
                              | Some fileResults \<Rightarrow>
                                  let allResults = map (\<lambda>result. result\<lparr>sr_file := path_relative env projectPath (sr_file result)\<rparr>)
                                                     (concat fileResults);
                                      limitedResults = take maxResults allResults
                                  in Some (Inr \<lparr>resp_query = query, resp_searchType = searchType,
                                                resp_results = limitedResults,
                                                totalMatches = length allResults,
                                                filesSearched = length files,
                                                filesWithMatches = card (set (map sr_file limitedResults)),
                                                truncated = (length allResults > maxResults)\<rparr>)))))"

text \<open>
  A toy environment to run the search: one project \<open>/proj\<close> with the single file
  \<open>/proj/a.txt\<close> of two lines, and an engine whose regexes are non-empty sources that match
  each occurrence of their first code unit.
\<close>

fun find_unit :: "unit16 \<Rightarrow> jsstring \<Rightarrow> nat \<Rightarrow> nat \<Rightarrow> (nat \<times> jsstring) option" where
  "find_unit c [] pos lastIndex = None"
| "find_unit c (x # xs) pos lastIndex =
     (if lastIndex \<le> pos \<and> x = c then Some (pos, [c]) else find_unit c xs (Suc pos) lastIndex)"

definition toy_env :: "jsstring search_env" where
  "toy_env = \<lparr>stat_isDirectory = (\<lambda>p. if p = js ''/proj'' then Some True else None),
              readFile = (\<lambda>p. if p = js ''/proj/a.txt'' then Some (js ''ab'' @ 10 # js ''ca'') else None),
              path_isAbsolute = (\<lambda>p. prefix [47] p),
              path_join = (\<lambda>a b. a @ 47 # b),
              path_relative = (\<lambda>a b. drop (Suc (length a)) b),
              trim = dropWhile (\<lambda>c. c = 32),
              glob = (\<lambda>pat cwd. if cwd = js ''/proj'' then Some [js ''/proj/a.txt''] else None),
              ignores = (\<lambda>gitignore rel. False),
              compile = (\<lambda>src. if src = [] then None else Some src),
              exec = (\<lambda>rx line lastIndex. find_unit (hd rx) line 0 lastIndex)\<rparr>"

section \<open>Containment check of the file resource\<close>

lemma getFileResource_parsed:
  assumes "parseURL plat uri = Some u" and "url_hostname u = js ''file''"
    and "decodeURIComponent plat (url_pathname u) = Some p" and "p \<noteq> []"
  shows "getFileResource plat fs uri =
     (case containment plat fs (url_root u) (filePath_of plat p) of
        Some e \<Rightarrow> Inl e
      | None \<Rightarrow> stat_and_read plat fs uri (filePath_of plat p))"
  using assms by (simp add: getFileResource_def Let_def)

lemma stat_and_read_not_denied: "stat_and_read plat fs uri fp \<noteq> Inl AccessDenied"
  by (simp add: stat_and_read_def Let_def split: option.splits)

lemma stat_and_read_realpath:
  "stat_and_read plat (fs\<lparr>fs_realpath := rp\<rparr>) uri fp = stat_and_read plat fs uri fp"
  by (simp add: stat_and_read_def split: option.splits)

text \<open>
  C1, as the code has it. With a non-empty \<open>root\<close> parameter and both paths resolved, the
  read is refused with the access-denied error exactly when the resolved target neither
  equals the resolved root nor begins with the resolved root made to end in a separator:
  one separator is appended only when the resolved root does not already end in one
  (so the root \<open>/\<close> stays \<open>/\<close>). With the \<open>root\<close> parameter absent or empty no check
  is made: the request is never refused for access and \<open>realpath\<close> is not consulted.
\<close>

theorem getFileResource_containment:
  assumes "parseURL plat uri = Some u" and "url_hostname u = js ''file''"
    and "decodeURIComponent plat (url_pathname u) = Some p" and "p \<noteq> []"
  shows "(\<forall>r realRoot realTarget.
            url_root u = Some r \<and> r \<noteq> [] \<and> fs_realpath fs r = Some realRoot
            \<and> fs_realpath fs (filePath_of plat p) = Some realTarget \<longrightarrow>
            (getFileResource plat fs uri = Inl AccessDenied) =
            (\<not> (realTarget = realRoot
                 \<or> prefix (if suffix [path_sep plat] realRoot then realRoot
                            else realRoot @ [path_sep plat]) realTarget)))
       \<and> (url_root u = None \<or> url_root u = Some [] \<longrightarrow>
            getFileResource plat fs uri \<noteq> Inl AccessDenied
            \<and> (\<forall>rp. getFileResource plat (fs\<lparr>fs_realpath := rp\<rparr>) uri = getFileResource plat fs uri))"
proof (intro conjI allI impI)
  fix r realRoot realTarget
  assume h: "url_root u = Some r \<and> r \<noteq> [] \<and> fs_realpath fs r = Some realRoot
             \<and> fs_realpath fs (filePath_of plat p) = Some realTarget"
  then have c: "containment plat fs (url_root u) (filePath_of plat p) =
      (if realTarget \<noteq> realRoot \<and> \<not> prefix (normalizedRoot plat realRoot) realTarget
       then Some AccessDenied else None)"
    by (simp add: containment_def)
  show "(getFileResource plat fs uri = Inl AccessDenied) =
        (\<not> (realTarget = realRoot
             \<or> prefix (if suffix [path_sep plat] realRoot then realRoot
                        else realRoot @ [path_sep plat]) realTarget))"
    unfolding getFileResource_parsed [OF assms] c
    by (simp add: normalizedRoot_def stat_and_read_not_denied)
next
  assume h: "url_root u = None \<or> url_root u = Some []"
  then have c: "containment plat fs' (url_root u) (filePath_of plat p) = None" for fs'
    by (auto simp: containment_def)
  show "getFileResource plat fs uri \<noteq> Inl AccessDenied"
    unfolding getFileResource_parsed [OF assms] c
    by (simp add: stat_and_read_not_denied)
  fix rp
  show "getFileResource plat (fs\<lparr>fs_realpath := rp\<rparr>) uri = getFileResource plat fs uri"
    unfolding getFileResource_parsed [OF assms] c by (simp add: stat_and_read_realpath)
qed

theorem getFileResource_containment_witness:
  "getFileResource posix disk (js ''project://file/a/bc?root=/a/b'') = Inl AccessDenied
   \<and> getFileResource posix disk (js ''project://file/a/bc'') \<noteq> Inl AccessDenied"
proof -
  let ?u1 = "\<lparr>url_hostname = js ''file'', url_pathname = js ''/a/bc'', url_root = Some (js ''/a/b'')\<rparr>"
  let ?u2 = "\<lparr>url_hostname = js ''file'', url_pathname = js ''/a/bc'', url_root = None\<rparr>"
  have u1: "parseURL posix (js ''project://file/a/bc?root=/a/b'') = Some ?u1"
    and u2: "parseURL posix (js ''project://file/a/bc'') = Some ?u2"
    and h1: "url_hostname ?u1 = js ''file''" and h2: "url_hostname ?u2 = js ''file''"
    and d1: "decodeURIComponent posix (url_pathname ?u1) = Some (js ''/a/bc'')"
    and d2: "decodeURIComponent posix (url_pathname ?u2) = Some (js ''/a/bc'')"
    and n: "js ''/a/bc'' \<noteq> []"
    by (simp_all add: posix_def js_def)
  have r: "url_root ?u1 = Some (js ''/a/b'') \<and> js ''/a/b'' \<noteq> []
      \<and> fs_realpath disk (js ''/a/b'') = Some (js ''/a/b'')
      \<and> fs_realpath disk (filePath_of posix (js ''/a/bc'')) = Some (js ''/a/bc'')"
    by (simp add: filePath_of_def posix_def disk_def js_def)
  have c: "\<not> (js ''/a/bc'' = js ''/a/b''
      \<or> prefix (if suffix [path_sep posix] (js ''/a/b'') then js ''/a/b''
                 else js ''/a/b'' @ [path_sep posix]) (js ''/a/bc''))"
    by (simp add: posix_def js_def suffix_to_prefix)
  have "getFileResource posix disk (js ''project://file/a/bc?root=/a/b'') = Inl AccessDenied"
    using getFileResource_containment [OF u1 h1 d1 n, of disk, THEN conjunct1, rule_format, OF r] c
    by simp
  moreover have "getFileResource posix disk (js ''project://file/a/bc'') \<noteq> Inl AccessDenied"
    using getFileResource_containment [OF u2 h2 d2 n, of disk, THEN conjunct2] by simp
  ultimately show ?thesis by simp
qed

text \<open>
  The criterion as the specification words it fails at the root \<open>/\<close>: \<open>/etc/passwd\<close>
  does not begin with \<open>//\<close>, yet the request with \<open>root=/\<close> is served. And a root
  parameter that is supplied but empty is not checked at all: the empty path does not
  resolve, yet the request with \<open>root=\<close> is served as well.
\<close>

theorem containment_root_slash_counterexample:
  "fs_realpath disk (js ''/'') = Some (js ''/'')
   \<and> fs_realpath disk (js ''/etc/passwd'') = Some (js ''/etc/passwd'')
   \<and> \<not> spec_isAllowed posix (js ''/'') (js ''/etc/passwd'')
   \<and> getFileResource posix disk (js ''project://file/etc/passwd?root=/'') =
       Inr \<lparr>res_uri = js ''project://file/etc/passwd?root=/'', res_mimeType = js ''text/plain'',
            res_text = js ''{}'', meta_size = 2, meta_modified = js ''2024-01-01T00:00:00.000Z'',
            meta_extension = []\<rparr>
   \<and> fs_realpath disk [] = None
   \<and> getFileResource posix disk (js ''project://file/etc/passwd?root='') =
       Inr \<lparr>res_uri = js ''project://file/etc/passwd?root='', res_mimeType = js ''text/plain'',
            res_text = js ''{}'', meta_size = 2, meta_modified = js ''2024-01-01T00:00:00.000Z'',
            meta_extension = []\<rparr>"
  by (simp add: getFileResource_def containment_def normalizedRoot_def spec_isAllowed_def
      filePath_of_def stat_and_read_def posix_def disk_def js_def MAX_BYTES_def suffix_to_prefix)

lemma spec_isAllowed_agrees:
  "\<not> suffix [path_sep plat] realRoot \<Longrightarrow>
   spec_isAllowed plat realRoot realTarget =
   (realTarget = realRoot \<or> prefix (normalizedRoot plat realRoot) realTarget)"
  by (simp add: spec_isAllowed_def normalizedRoot_def)

section \<open>Kind and size checks of the file resource\<close>

text \<open>
  C2. Once the containment block has let the request through, a target that is not a
  regular file is refused as not a file, a regular file larger than 2 MiB
  (2097152 bytes) is refused as too large, and in both cases no content is returned;
  a regular file of at most 2 MiB passes both checks and the outcome is that of reading it.
\<close>

theorem getFileResource_kind_and_size:
  assumes "parseURL plat uri = Some u" and "url_hostname u = js ''file''"
    and "decodeURIComponent plat (url_pathname u) = Some p" and "p \<noteq> []"
    and "containment plat fs (url_root u) (filePath_of plat p) = None"
    and "fs_stat fs (filePath_of plat p) = Some st"
  shows "MAX_BYTES = 2097152
       \<and> (\<not> st_isFile st \<longrightarrow> getFileResource plat fs uri = Inl NotAFile)
       \<and> (st_isFile st \<and> st_size st > 2097152 \<longrightarrow>
            getFileResource plat fs uri = Inl (FileTooLarge (st_size st) 2097152))
       \<and> (st_isFile st \<and> st_size st \<le> 2097152 \<longrightarrow>
            (case fs_readFile fs (filePath_of plat p) of
               None \<Rightarrow> getFileResource plat fs uri = Inl Rejected
             | Some content \<Rightarrow>
                 (\<exists>r. getFileResource plat fs uri = Inr r \<and> res_text r = content
                      \<and> meta_size r = st_size st)))"
  unfolding getFileResource_parsed [OF assms(1-4)] assms(5)
  by (simp add: stat_and_read_def assms(6) MAX_BYTES_def Let_def split: option.splits)

theorem getFileResource_kind_and_size_witness:
  "getFileResource posix disk (js ''project://file/a/big?root=/a'') = Inl (FileTooLarge 3145728 2097152)
   \<and> (\<exists>r. getFileResource posix disk (js ''project://file/a/b/c.json?root=/a/b'') = Inr r
          \<and> res_text r = js ''{}'' \<and> meta_size r = 2)"
proof -
  let ?u1 = "\<lparr>url_hostname = js ''file'', url_pathname = js ''/a/big'', url_root = Some (js ''/a'')\<rparr>"
  let ?u2 = "\<lparr>url_hostname = js ''file'', url_pathname = js ''/a/b/c.json'', url_root = Some (js ''/a/b'')\<rparr>"
  let ?s1 = "\<lparr>st_isFile = True, st_size = 3145728, st_mtime = js ''2024-01-01T00:00:00.000Z''\<rparr>"
  let ?s2 = "\<lparr>st_isFile = True, st_size = 2, st_mtime = js ''2024-01-01T00:00:00.000Z''\<rparr>"
  have u1: "parseURL posix (js ''project://file/a/big?root=/a'') = Some ?u1"
    and u2: "parseURL posix (js ''project://file/a/b/c.json?root=/a/b'') = Some ?u2"
    and h1: "url_hostname ?u1 = js ''file''" and h2: "url_hostname ?u2 = js ''file''"
    and d1: "decodeURIComponent posix (url_pathname ?u1) = Some (js ''/a/big'')"
    and d2: "decodeURIComponent posix (url_pathname ?u2) = Some (js ''/a/b/c.json'')"
    and n1: "js ''/a/big'' \<noteq> []" and n2: "js ''/a/b/c.json'' \<noteq> []"
    and c1: "containment posix disk (url_root ?u1) (filePath_of posix (js ''/a/big'')) = None"
    and c2: "containment posix disk (url_root ?u2) (filePath_of posix (js ''/a/b/c.json'')) = None"
    and s1: "fs_stat disk (filePath_of posix (js ''/a/big'')) = Some ?s1"
    and s2: "fs_stat disk (filePath_of posix (js ''/a/b/c.json'')) = Some ?s2"
    and r2: "fs_readFile disk (filePath_of posix (js ''/a/b/c.json'')) = Some (js ''{}'')"
    by (simp_all add: containment_def normalizedRoot_def filePath_of_def posix_def disk_def js_def
        suffix_to_prefix)
  have "getFileResource posix disk (js ''project://file/a/big?root=/a'') = Inl (FileTooLarge 3145728 2097152)"
    using getFileResource_kind_and_size [OF u1 h1 d1 n1 c1 s1] by simp
  moreover have "\<exists>r. getFileResource posix disk (js ''project://file/a/b/c.json?root=/a/b'') = Inr r
          \<and> res_text r = js ''{}'' \<and> meta_size r = 2"
    using getFileResource_kind_and_size [OF u2 h2 d2 n2 c2 s2] r2 by simp
  ultimately show ?thesis by simp
qed

section \<open>The cache as a map in insertion order\<close>

lemma keys_cache_set:
  "map fst (cache_set k v c) = (if k \<in> fst ` set c then map fst c else map fst c @ [k])"
  by (induction c) (auto simp: rev_image_eqI)

lemma wf_cache_set: "wf_cache c \<Longrightarrow> wf_cache (cache_set k v c)"
  by (simp add: wf_cache_def keys_cache_set)

lemma length_cache_set:
  "length (cache_set k v c) = (if k \<in> fst ` set c then length c else Suc (length c))"
  by (induction c) (auto simp: rev_image_eqI)

lemma cache_set_new: "k \<notin> fst ` set c \<Longrightarrow> cache_set k v c = c @ [(k, v)]"
  by (induction c) auto

lemma cache_get_set:
  "cache_get (cache_set k v c) k' = (if k' = k then Some v else cache_get c k')"
  by (induction c) (auto simp: cache_get_def)

lemma fold_cache_delete:
  "fold (\<lambda>kv c'. cache_delete (fst kv) c') ds c = filter (\<lambda>kv. fst kv \<notin> fst ` set ds) c"
  by (induction ds arbitrary: c) (auto simp: cache_delete_def conj_commute)

lemma set_sort_newest_first: "set (sort_newest_first c) = set c"
  by (simp add: sort_newest_first_def)

lemma length_sort_newest_first: "length (sort_newest_first c) = length c"
  by (simp add: sort_newest_first_def)

lemma mset_sort_newest_first: "mset (sort_newest_first c) = mset c"
  by (simp add: sort_newest_first_def)

lemma wf_sort_newest_first: "wf_cache (sort_newest_first c) = wf_cache c"
proof -
  have "mset (map fst (sort_newest_first c)) = mset (map fst c)"
    by (simp add: mset_sort_newest_first)
  then show ?thesis
    unfolding wf_cache_def by (rule mset_eq_imp_distinct_iff)
qed

lemma sorted_newest_first:
  "sorted (map (\<lambda>kv. - timestamp (snd kv)) (sort_newest_first c))"
  by (simp add: sort_newest_first_def)

lemma take_drop_newest:
  assumes "x \<in> set (take n (sort_newest_first c))" and "y \<in> set (drop n (sort_newest_first c))"
  shows "timestamp (snd y) \<le> timestamp (snd x)"
proof -
  let ?es = "sort_newest_first c"
  have "sorted (map (\<lambda>kv. - timestamp (snd kv)) (take n ?es) @ map (\<lambda>kv. - timestamp (snd kv)) (drop n ?es))"
    using sorted_newest_first [of c] by (simp flip: map_append)
  then show ?thesis using assms by (auto simp: sorted_append)
qed

lemma keys_apart:
  assumes "distinct (map fst (xs @ ys))" and "x \<in> set xs" and "y \<in> set ys"
  shows "fst x \<noteq> fst y"
  using assms by (auto simp: image_iff) 

lemma wf_take_drop:
  assumes "wf_cache c"
  shows "distinct (map fst (take n (sort_newest_first c) @ drop n (sort_newest_first c)))"
  using assms wf_sort_newest_first [of c] by (simp add: wf_cache_def del: map_append)

lemma kept_iff:
  assumes "wf_cache c" and "kv \<in> set c"
  shows "(fst kv \<notin> fst ` set (drop n (sort_newest_first c))) = (kv \<in> set (take n (sort_newest_first c)))"
proof
  assume "fst kv \<notin> fst ` set (drop n (sort_newest_first c))"
  then have "kv \<notin> set (drop n (sort_newest_first c))" by auto
  moreover have "kv \<in> set (take n (sort_newest_first c) @ drop n (sort_newest_first c))"
    using assms(2) unfolding append_take_drop_id by (simp add: set_sort_newest_first)
  ultimately show "kv \<in> set (take n (sort_newest_first c))"
    unfolding set_append by blast
next
  assume "kv \<in> set (take n (sort_newest_first c))"
  then show "fst kv \<notin> fst ` set (drop n (sort_newest_first c))"
    using keys_apart [OF wf_take_drop [OF assms(1), of n]] by blast
qed

lemma evict_in_place_filter:
  assumes "wf_cache c" and "length c > 50"
  shows "evict_in_place c = filter (\<lambda>kv. kv \<in> set (take 50 (sort_newest_first c))) c"
proof -
  have "filter (\<lambda>kv. fst kv \<notin> fst ` set (drop 50 (sort_newest_first c))) c =
        filter (\<lambda>kv. kv \<in> set (take 50 (sort_newest_first c))) c"
    by (rule filter_cong [OF refl]) (rule kept_iff [OF assms(1)])
  then show ?thesis
    using assms(2) by (simp add: evict_in_place_def fold_cache_delete)
qed

lemma filter_take_self:
  assumes "distinct xs"
  shows "filter (\<lambda>x. x \<in> set (take n xs)) xs = take n xs"
proof -
  have d: "set (take n xs) \<inter> set (drop n xs) = {}"
    using assms by (simp add: set_take_disj_set_drop_if_distinct)
  have "filter (\<lambda>x. x \<in> set (take n xs)) (take n xs @ drop n xs) = take n xs"
    unfolding filter_append using d by (auto simp: filter_empty_conv)
  then show ?thesis unfolding append_take_drop_id .
qed

lemma wf_cache_distinct: "wf_cache c \<Longrightarrow> distinct c"
  by (simp add: wf_cache_def distinct_map)

lemma mset_evict_in_place:
  assumes "wf_cache c" and "length c > 50"
  shows "mset (evict_in_place c) = mset (take 50 (sort_newest_first c))"
proof -
  let ?P = "\<lambda>kv. kv \<in> set (take 50 (sort_newest_first c))"
  have "mset (evict_in_place c) = filter_mset ?P (mset c)"
    by (simp add: evict_in_place_filter [OF assms])
  also have "\<dots> = mset (filter ?P (sort_newest_first c))"
    by (simp add: mset_sort_newest_first)
  also have "\<dots> = mset (take 50 (sort_newest_first c))"
    using wf_cache_distinct [of "sort_newest_first c"] assms(1)
    by (simp add: filter_take_self wf_sort_newest_first)
  finally show ?thesis .
qed

lemma length_evict_in_place:
  assumes "wf_cache c" and "length c > 50"
  shows "length (evict_in_place c) = 50"
proof -
  have "length (evict_in_place c) = length (take 50 (sort_newest_first c))"
    using mset_evict_in_place [OF assms] by (metis size_mset)
  then show ?thesis using assms(2) by (simp add: length_sort_newest_first)
qed

lemma fold_cache_set_fresh:
  "distinct (map fst (acc @ xs)) \<Longrightarrow>
   fold (\<lambda>kv c'. cache_set (fst kv) (snd kv) c') xs acc = acc @ xs"
proof (induction xs arbitrary: acc)
  case Nil
  then show ?case by simp
next
  case (Cons x xs)
  have "fst x \<notin> fst ` set acc" using Cons.prems by auto
  then have "cache_set (fst x) (snd x) acc = acc @ [x]"
    by (simp add: cache_set_new)
  then show ?case using Cons.IH [of "acc @ [x]"] Cons.prems by simp
qed

lemma evict_rebuild_take:
  assumes "wf_cache c" and "length c > 50"
  shows "evict_rebuild c = take 50 (sort_newest_first c)"
proof -
  have "distinct (map fst (take 50 (sort_newest_first c)))"
    using assms(1) wf_sort_newest_first [of c]
    by (simp add: wf_cache_def distinct_take flip: take_map)
  then show ?thesis
    using assms(2) fold_cache_set_fresh [of "[]" "take 50 (sort_newest_first c)"]
    by (simp add: evict_rebuild_def)
qed

lemma wf_evict_in_place: "wf_cache c \<Longrightarrow> wf_cache (evict_in_place c)"
  by (simp add: evict_in_place_def fold_cache_delete wf_cache_def distinct_map_filter)

lemma wf_evict_rebuild: "wf_cache c \<Longrightarrow> wf_cache (evict_rebuild c)"
proof (cases "length c > 50")
  case True
  assume "wf_cache c"
  then show ?thesis
    using wf_sort_newest_first [of c]
    by (simp add: evict_rebuild_take True wf_cache_def distinct_take flip: take_map)
next
  case False
  assume "wf_cache c"
  then show ?thesis using False by (simp add: evict_rebuild_def)
qed

lemma drop_to_last:
  assumes "length xs = Suc n"
  shows "drop n xs = [last xs]"
proof -
  have "length (drop n xs) = 1" using assms by simp
  then obtain x where x: "drop n xs = [x]"
    by (cases "drop n xs") auto
  have "last (drop n xs) = last xs" using assms by (simp add: last_drop)
  then show ?thesis using x by simp
qed

lemma evict_one:
  assumes wf: "wf_cache c" and len: "length c = 51"
  defines "victim \<equiv> last (sort_newest_first c)"
  shows "victim \<in> set c"
    and "\<forall>kv \<in> set c. timestamp (snd victim) \<le> timestamp (snd kv)"
    and "evict_in_place c = filter (\<lambda>kv. kv \<noteq> victim) c"
    and "mset (evict_rebuild c) = mset (filter (\<lambda>kv. kv \<noteq> victim) c)"
proof -
  let ?es = "sort_newest_first c"
  have les: "length ?es = Suc 50" using len by (simp add: length_sort_newest_first)
  have dr: "drop 50 ?es = [victim]"
    unfolding victim_def by (rule drop_to_last [OF les])
  have un: "set c = set (take 50 ?es) \<union> set (drop 50 ?es)"
    unfolding set_append [symmetric] append_take_drop_id by (simp add: set_sort_newest_first)
  have dis: "set (take 50 ?es) \<inter> set (drop 50 ?es) = {}"
    using wf_cache_distinct [of ?es] wf
    by (simp add: set_take_disj_set_drop_if_distinct wf_sort_newest_first)
  show "victim \<in> set c" using un dr by simp
  show "\<forall>kv \<in> set c. timestamp (snd victim) \<le> timestamp (snd kv)"
  proof
    fix kv assume "kv \<in> set c"
    then consider "kv \<in> set (take 50 ?es)" | "kv = victim" using un dr by auto
    then show "timestamp (snd victim) \<le> timestamp (snd kv)"
    proof cases
      case 1
      then show ?thesis using take_drop_newest [of kv 50 c victim] dr by simp
    next
      case 2
      then show ?thesis by simp
    qed
  qed
  have keep: "(kv \<in> set (take 50 ?es)) = (kv \<noteq> victim)" if "kv \<in> set c" for kv
    using that un dis dr by auto
  have l: "length c > 50" using len by simp
  show ip: "evict_in_place c = filter (\<lambda>kv. kv \<noteq> victim) c"
    unfolding evict_in_place_filter [OF wf l]
    by (rule filter_cong [OF refl]) (rule keep)
  show "mset (evict_rebuild c) = mset (filter (\<lambda>kv. kv \<noteq> victim) c)"
    using mset_evict_in_place [OF wf l] by (simp add: evict_rebuild_take [OF wf l] ip)
qed

lemma length_evict_in_place_le: "wf_cache c \<Longrightarrow> length (evict_in_place c) \<le> 50"
  by (cases "length c > 50") (simp_all add: length_evict_in_place, simp add: evict_in_place_def)

lemma length_evict_rebuild_le: "wf_cache c \<Longrightarrow> length (evict_rebuild c) \<le> 50"
  by (cases "length c > 50")
     (simp_all add: evict_rebuild_take length_sort_newest_first, simp add: evict_rebuild_def)

section \<open>Lookup, expiry and insertion of the context cache\<close>

lemma aggregate_not_cached: "ctx_cached (aggregate sv g h p t) = None"
  by (simp add: aggregate_def Let_def split: sum.splits option.splits)

lemma getOrCreateContext_with_hit:
  assumes "cache_get c (generateContextHash sv p t) = Some e"
    and "now_check clk - timestamp e < CACHE_TTL"
  shows "getOrCreateContext_with cleanup sv clk c p t =
         ((data e)\<lparr>ctx_cached := Some True, ctx_hash := generateContextHash sv p t\<rparr>, c)"
  using assms by (simp add: getOrCreateContext_with_def Let_def)

lemma getOrCreateContext_with_miss:
  assumes "cache_get c (generateContextHash sv p t) = None
           \<or> (\<exists>e. cache_get c (generateContextHash sv p t) = Some e
                  \<and> \<not> now_check clk - timestamp e < CACHE_TTL)"
  shows "getOrCreateContext_with cleanup sv clk c p t =
         (aggregate sv (generated_iso clk) (generateContextHash sv p t) p t,
          cleanup (cache_set (generateContextHash sv p t)
             \<lparr>timestamp = now_store clk,
              data = aggregate sv (generated_iso clk) (generateContextHash sv p t) p t\<rparr> c))"
  using assms by (auto simp: getOrCreateContext_with_def Let_def)

lemma cache_get_keys: "cache_get c k = Some e \<Longrightarrow> k \<in> fst ` set c"
  unfolding cache_get_def by (metis map_of_SomeD fst_conv image_eqI)

lemma cache_get_None_keys: "cache_get c k = None \<Longrightarrow> k \<notin> fst ` set c"
  unfolding cache_get_def by (simp add: map_of_eq_None_iff)

lemma evict_in_place_small: "length c \<le> 50 \<Longrightarrow> evict_in_place c = c"
  by (simp add: evict_in_place_def)

lemma evict_rebuild_small: "length c \<le> 50 \<Longrightarrow> evict_rebuild c = c"
  by (simp add: evict_rebuild_def)

lemma overwrite_in_place:
  assumes "cache_get c k = Some e" and "length c \<le> 50"
  shows "evict_in_place (cache_set k v c) = cache_set k v c"
    and "evict_rebuild (cache_set k v c) = cache_set k v c"
    and "map fst (cache_set k v c) = map fst c"
  using assms cache_get_keys [OF assms(1)]
  by (simp_all add: evict_in_place_small evict_rebuild_small length_cache_set keys_cache_set)





lemma snd_getOrCreateContext_with:
  "snd (getOrCreateContext_with cleanup sv clk c p t) = c
   \<or> (\<exists>e. snd (getOrCreateContext_with cleanup sv clk c p t) =
            cleanup (cache_set (generateContextHash sv p t) e c))"
  by (auto simp: getOrCreateContext_with_def Let_def split: option.splits)

lemma wf_getOrCreateContext:
  assumes "wf_cache c"
  shows "wf_cache (snd (getOrCreateContext sv clk c p t))"
    and "wf_cache (snd (getOrCreateContext_rebuild sv clk c p t))"
  using assms snd_getOrCreateContext_with [of evict_in_place sv clk c p t]
    snd_getOrCreateContext_with [of evict_rebuild sv clk c p t]
  unfolding getOrCreateContext_def getOrCreateContext_rebuild_def
  by (auto simp: wf_evict_in_place wf_evict_rebuild wf_cache_set)

lemma wf_full_cache: "wf_cache full_cache"
  by (auto simp: wf_cache_def full_cache_def distinct_map inj_on_def o_def)

lemma length_full_cache: "length full_cache = 50"
  by (simp add: full_cache_def)

lemma fresh_key_full_cache: "js ''/p'' \<notin> fst ` set full_cache"
  by (auto simp: full_cache_def js_def)

text \<open>
  C3, as the code has it. When the entry of the key is fresh (the clock reading at the check
  minus its timestamp is below the TTL), \<open>getOrCreateContext\<close> returns the payload held
  by the entry with the field \<open>cached\<close> set to \<open>true\<close> and the field \<open>hash\<close> set to the
  key; every other field is the one the entry holds, and the cache is left as it was. Both
  variants of the function agree on this.
\<close>

theorem cache_hit_payload:
  assumes "cache_get c (generateContextHash sv p t) = Some e"
    and "now_check clk - timestamp e < CACHE_TTL"
  shows "getOrCreateContext sv clk c p t =
           ((data e)\<lparr>ctx_cached := Some True, ctx_hash := generateContextHash sv p t\<rparr>, c)
       \<and> getOrCreateContext_rebuild sv clk c p t =
           ((data e)\<lparr>ctx_cached := Some True, ctx_hash := generateContextHash sv p t\<rparr>, c)"
  unfolding getOrCreateContext_def getOrCreateContext_rebuild_def
  using assms by (simp add: getOrCreateContext_with_hit)

theorem cache_hit_payload_witness:
  "getOrCreateContext svc (clock_at 2000) [(key_p, \<lparr>timestamp = 1005, data = stored_payload\<rparr>)] (js ''/p'') None =
     (stored_payload\<lparr>ctx_cached := Some True\<rparr>, [(key_p, \<lparr>timestamp = 1005, data = stored_payload\<rparr>)])"
proof -
  have h: "generateContextHash svc (js ''/p'') None = key_p"
    by (simp add: generateContextHash_def svc_def key_p_def)
  have g: "cache_get [(key_p, \<lparr>timestamp = 1005, data = stored_payload\<rparr>)]
             (generateContextHash svc (js ''/p'') None) = Some \<lparr>timestamp = 1005, data = stored_payload\<rparr>"
    by (simp add: h cache_get_def)
  have f: "now_check (clock_at 2000) - timestamp \<lparr>timestamp = 1005, data = stored_payload\<rparr> < CACHE_TTL"
    by (simp add: clock_at_def CACHE_TTL_def)
  show ?thesis
    using cache_hit_payload [OF g f] by (simp add: h stored_payload_def)
qed

text \<open>
  The payload of a hit is not identical to the stored one: the first request stores
  \<open>stored_payload\<close>, which has no \<open>cached\<close> field, and the second request, within the
  TTL, returns a payload that differs from it.
\<close>

theorem cache_hit_not_identical_counterexample:
  "getOrCreateContext svc (clock_at 1000) [] (js ''/p'') None =
     (stored_payload, [(key_p, \<lparr>timestamp = 1005, data = stored_payload\<rparr>)])
   \<and> now_check (clock_at 2000) - 1005 < CACHE_TTL
   \<and> fst (getOrCreateContext svc (clock_at 2000)
        [(key_p, \<lparr>timestamp = 1005, data = stored_payload\<rparr>)] (js ''/p'') None) \<noteq> stored_payload"
  by (simp add: getOrCreateContext_def getOrCreateContext_with_def generateContextHash_def
      svc_def clock_at_def aggregate_def cache_get_def evict_in_place_def Let_def
      stored_payload_def CACHE_TTL_def key_p_def [symmetric])

text \<open>
  C4. The TTL is 300000 ms, five minutes. A lookup answers from the cache (the result is
  marked \<open>cached\<close>) exactly when the key has an entry whose timestamp lies less than the
  TTL before the clock reading; a hit leaves the cache as it was. An expired entry is a
  miss: it is not removed by the check, the payload is regenerated and stored under the same
  key, at the same position, with the clock reading of the store as its timestamp, and the
  other keys keep their entries (for a cache within its capacity of 50).
\<close>

theorem cache_expiry:
  fixes sv :: "'j services"
  defines "h p t \<equiv> generateContextHash sv p t"
  shows "CACHE_TTL = 300000
    \<and> (ctx_cached (fst (getOrCreateContext sv clk c p t)) = Some True
         \<longleftrightarrow> (\<exists>e. cache_get c (h p t) = Some e \<and> now_check clk - timestamp e < 300000))
    \<and> (\<forall>e. cache_get c (h p t) = Some e \<and> now_check clk - timestamp e < 300000 \<longrightarrow>
           snd (getOrCreateContext sv clk c p t) = c)
    \<and> (\<forall>e. cache_get c (h p t) = Some e \<and> \<not> now_check clk - timestamp e < 300000
            \<and> length c \<le> 50 \<longrightarrow>
           (\<exists>ctx c'. getOrCreateContext sv clk c p t = (ctx, c')
              \<and> ctx = aggregate sv (generated_iso clk) (h p t) p t
              \<and> cache_get c' (h p t) = Some \<lparr>timestamp = now_store clk, data = ctx\<rparr>
              \<and> map fst c' = map fst c
              \<and> (\<forall>k. k \<noteq> h p t \<longrightarrow> cache_get c' k = cache_get c k)))"
proof (intro conjI allI impI)
  show ttl: "CACHE_TTL = 300000" by (simp add: CACHE_TTL_def)
  show "ctx_cached (fst (getOrCreateContext sv clk c p t)) = Some True
         \<longleftrightarrow> (\<exists>e. cache_get c (h p t) = Some e \<and> now_check clk - timestamp e < 300000)"
  proof (cases "\<exists>e. cache_get c (h p t) = Some e \<and> now_check clk - timestamp e < CACHE_TTL")
    case True
    then show ?thesis
      unfolding getOrCreateContext_def h_def
      by (auto simp: getOrCreateContext_with_hit ttl)
  next
    case False
    then have "cache_get c (generateContextHash sv p t) = None
           \<or> (\<exists>e. cache_get c (generateContextHash sv p t) = Some e
                  \<and> \<not> now_check clk - timestamp e < CACHE_TTL)"
      unfolding h_def by (cases "cache_get c (generateContextHash sv p t)") auto
    from getOrCreateContext_with_miss [OF this] False show ?thesis
      unfolding getOrCreateContext_def h_def
      by (simp add: aggregate_not_cached ttl)
  qed
next
  fix e
  assume "cache_get c (h p t) = Some e \<and> now_check clk - timestamp e < 300000"
  then show "snd (getOrCreateContext sv clk c p t) = c"
    unfolding getOrCreateContext_def h_def
    by (simp add: getOrCreateContext_with_hit CACHE_TTL_def)
next
  fix e
  assume a: "cache_get c (h p t) = Some e \<and> \<not> now_check clk - timestamp e < 300000
             \<and> length c \<le> 50"
  let ?ctx = "aggregate sv (generated_iso clk) (h p t) p t"
  let ?c' = "cache_set (h p t) \<lparr>timestamp = now_store clk, data = ?ctx\<rparr> c"
  have "cache_get c (generateContextHash sv p t) = None
           \<or> (\<exists>e. cache_get c (generateContextHash sv p t) = Some e
                  \<and> \<not> now_check clk - timestamp e < CACHE_TTL)"
    using a unfolding h_def by (auto simp: CACHE_TTL_def)
  from getOrCreateContext_with_miss [OF this]
  have "getOrCreateContext sv clk c p t = (?ctx, evict_in_place ?c')"
    unfolding getOrCreateContext_def h_def by simp
  then have "getOrCreateContext sv clk c p t = (?ctx, ?c')"
    using a overwrite_in_place(1) [of c "h p t" e] by simp
  moreover have "map fst ?c' = map fst c"
    using a overwrite_in_place(3) [of c "h p t" e] by simp
  ultimately show "\<exists>ctx c'. getOrCreateContext sv clk c p t = (ctx, c')
              \<and> ctx = aggregate sv (generated_iso clk) (h p t) p t
              \<and> cache_get c' (h p t) = Some \<lparr>timestamp = now_store clk, data = ctx\<rparr>
              \<and> map fst c' = map fst c
              \<and> (\<forall>k. k \<noteq> h p t \<longrightarrow> cache_get c' k = cache_get c k)"
    by (simp add: cache_get_set)
qed

theorem cache_expiry_witness:
  "ctx_cached (fst (getOrCreateContext svc (clock_at 2000)
      [(key_p, \<lparr>timestamp = 1005, data = stored_payload\<rparr>)] (js ''/p'') None)) = Some True
   \<and> ctx_cached (fst (getOrCreateContext svc (clock_at 301005)
      [(key_p, \<lparr>timestamp = 1005, data = stored_payload\<rparr>)] (js ''/p'') None)) \<noteq> Some True
   \<and> cache_get (snd (getOrCreateContext svc (clock_at 301005)
      [(key_p, \<lparr>timestamp = 1005, data = stored_payload\<rparr>)] (js ''/p'') None)) key_p
      = Some \<lparr>timestamp = 301010, data = stored_payload\<rparr>"
proof -
  let ?c = "[(key_p, \<lparr>timestamp = 1005, data = stored_payload\<rparr>)]"
  have h: "generateContextHash svc (js ''/p'') None = key_p"
    by (simp add: generateContextHash_def svc_def key_p_def)
  have g: "cache_get ?c key_p = Some \<lparr>timestamp = 1005, data = stored_payload\<rparr>"
    by (simp add: cache_get_def)
  have a: "aggregate svc (generated_iso (clock_at 301005)) key_p (js ''/p'') None = stored_payload"
    by (simp add: aggregate_def svc_def clock_at_def stored_payload_def)
  note th = cache_expiry [of svc "clock_at 2000" ?c "js ''/p''" None, unfolded h]
    and th' = cache_expiry [of svc "clock_at 301005" ?c "js ''/p''" None, unfolded h]
  have 1: "ctx_cached (fst (getOrCreateContext svc (clock_at 2000) ?c (js ''/p'') None)) = Some True"
    using th g by (simp add: clock_at_def)
  have 2: "ctx_cached (fst (getOrCreateContext svc (clock_at 301005) ?c (js ''/p'') None)) \<noteq> Some True"
    using th' g by (simp add: clock_at_def)
  have "\<exists>ctx c'. getOrCreateContext svc (clock_at 301005) ?c (js ''/p'') None = (ctx, c')
              \<and> ctx = aggregate svc (generated_iso (clock_at 301005)) key_p (js ''/p'') None
              \<and> cache_get c' key_p = Some \<lparr>timestamp = now_store (clock_at 301005), data = ctx\<rparr>
              \<and> map fst c' = map fst ?c
              \<and> (\<forall>k. k \<noteq> key_p \<longrightarrow> cache_get c' k = cache_get ?c k)"
    using th' [THEN conjunct2, THEN conjunct2, THEN conjunct2, rule_format,
        of "\<lparr>timestamp = 1005, data = stored_payload\<rparr>"] g
    by (simp add: clock_at_def)
  then have 3: "cache_get (snd (getOrCreateContext svc (clock_at 301005) ?c (js ''/p'') None)) key_p
      = Some \<lparr>timestamp = 301010, data = stored_payload\<rparr>"
    using a by (auto simp: clock_at_def)
  show ?thesis using 1 2 3 by simp
qed

text \<open>
  C5. After an insertion and its clean-up the cache holds at most 50 entries, in both
  variants of the clean-up, and so does the cache that \<open>getOrCreateContext\<close> leaves when it
  was given at most 50. Inserting a new key into a cache of 50 entries evicts exactly one
  entry, the victim: its timestamp is the oldest of the 51 (no entry has an older one), the
  in-place variant keeps every other entry in its place, the rebuilding variant keeps the
  same entries, and both leave 50.
\<close>

theorem context_cache_capacity:
  assumes wf: "wf_cache c"
  shows "length (evict_in_place (cache_set k v c)) \<le> 50
    \<and> length (evict_rebuild (cache_set k v c)) \<le> 50
    \<and> (length c \<le> 50 \<longrightarrow>
          length (snd (getOrCreateContext sv clk c p t)) \<le> 50
          \<and> length (snd (getOrCreateContext_rebuild sv clk c p t)) \<le> 50)
    \<and> (length c = 50 \<and> k \<notin> fst ` set c \<longrightarrow>
          (\<exists>victim \<in> set (c @ [(k, v)]).
              (\<forall>kv \<in> set (c @ [(k, v)]). timestamp (snd victim) \<le> timestamp (snd kv))
            \<and> evict_in_place (cache_set k v c) = filter (\<lambda>kv. kv \<noteq> victim) (c @ [(k, v)])
            \<and> length (evict_in_place (cache_set k v c)) = 50
            \<and> mset (evict_rebuild (cache_set k v c)) = mset (filter (\<lambda>kv. kv \<noteq> victim) (c @ [(k, v)]))
            \<and> length (evict_rebuild (cache_set k v c)) = 50))"
proof (intro conjI impI)
  have wf1: "wf_cache (cache_set k' v' c)" for k' v' using wf by (rule wf_cache_set)
  show "length (evict_in_place (cache_set k v c)) \<le> 50"
    by (rule length_evict_in_place_le [OF wf1])
  show "length (evict_rebuild (cache_set k v c)) \<le> 50"
    by (rule length_evict_rebuild_le [OF wf1])
  {
    assume le: "length c \<le> 50"
    show "length (snd (getOrCreateContext sv clk c p t)) \<le> 50"
      using snd_getOrCreateContext_with [of evict_in_place sv clk c p t] le
        length_evict_in_place_le [OF wf1]
      unfolding getOrCreateContext_def by auto
    show "length (snd (getOrCreateContext_rebuild sv clk c p t)) \<le> 50"
      using snd_getOrCreateContext_with [of evict_rebuild sv clk c p t] le
        length_evict_rebuild_le [OF wf1]
      unfolding getOrCreateContext_rebuild_def by auto
  }
  assume a: "length c = 50 \<and> k \<notin> fst ` set c"
  let ?c1 = "c @ [(k, v)]"
  have c1: "cache_set k v c = ?c1" using a by (simp add: cache_set_new)
  have wfc1: "wf_cache ?c1" using wf1 [of k v] c1 by simp
  have len: "length ?c1 = 51" using a by simp
  let ?victim = "last (sort_newest_first ?c1)"
  note ev = evict_one [OF wfc1 len]
  have "length (evict_in_place ?c1) = 50" "length (evict_rebuild ?c1) = 50"
    using wfc1 len by (simp_all add: length_evict_in_place evict_rebuild_take length_sort_newest_first)
  then show "\<exists>victim \<in> set ?c1.
              (\<forall>kv \<in> set ?c1. timestamp (snd victim) \<le> timestamp (snd kv))
            \<and> evict_in_place (cache_set k v c) = filter (\<lambda>kv. kv \<noteq> victim) ?c1
            \<and> length (evict_in_place (cache_set k v c)) = 50
            \<and> mset (evict_rebuild (cache_set k v c)) = mset (filter (\<lambda>kv. kv \<noteq> victim) ?c1)
            \<and> length (evict_rebuild (cache_set k v c)) = 50"
    unfolding c1 using ev by (intro bexI [of _ ?victim]) auto
qed

theorem context_cache_capacity_witness:
  "wf_cache full_cache \<and> length full_cache = 50 \<and> js ''/p'' \<notin> fst ` set full_cache
   \<and> length (snd (getOrCreateContext svc (clock_at 1000) full_cache (js ''/p'') None)) \<le> 50
   \<and> (\<exists>victim \<in> set (full_cache @ [(js ''/p'', \<lparr>timestamp = 1005, data = blank\<rparr>)]).
         (\<forall>kv \<in> set (full_cache @ [(js ''/p'', \<lparr>timestamp = 1005, data = blank\<rparr>)]).
             timestamp (snd victim) \<le> timestamp (snd kv))
       \<and> evict_in_place (cache_set (js ''/p'') \<lparr>timestamp = 1005, data = blank\<rparr> full_cache) =
           filter (\<lambda>kv. kv \<noteq> victim) (full_cache @ [(js ''/p'', \<lparr>timestamp = 1005, data = blank\<rparr>)])
       \<and> length (evict_in_place (cache_set (js ''/p'') \<lparr>timestamp = 1005, data = blank\<rparr> full_cache)) = 50)"
  using context_cache_capacity [OF wf_full_cache, of "js ''/p''" "\<lparr>timestamp = 1005, data = blank\<rparr>"
      svc "clock_at 1000" "js ''/p''" None]
    wf_full_cache length_full_cache fresh_key_full_cache
  by (simp only: simp_thms order_refl) blast



section \<open>The regex safety check\<close>








section \<open>The codebase search\<close>

lemma search_files_Some:
  "search_files env q ty files = Some rs \<longleftrightarrow>
     map (\<lambda>file. searchInFile env file q ty) files = map Some rs"
proof (induction files arbitrary: rs)
  case Nil
  then show ?case by auto
next
  case (Cons f files)
  show ?case
  proof (cases "searchInFile env f q ty")
    case None
    then show ?thesis by (cases rs) auto
  next
    case (Some r)
    show ?thesis
    proof (cases "search_files env q ty files")
      case None
      then have "map (\<lambda>file. searchInFile env file q ty) files \<noteq> map Some rs'" for rs'
        using Cons.IH [of rs'] by simp
      then show ?thesis using None Some by (cases rs) auto
    next
      case (Some rs0)
      then have "map (\<lambda>file. searchInFile env file q ty) files = map Some rs0"
        using Cons.IH [of rs0] by simp
      then show ?thesis using Some \<open>searchInFile env f q ty = Some r\<close>
        by (cases rs) (auto simp: inj_map_eq_map)
    qed
  qed
qed

lemma searchInFile_unsafe:
  "\<not> isRegexSafe q 200 \<Longrightarrow> searchInFile env file q Regex = Some []"
  by (simp add: searchInFile_def split: option.splits)

lemma search_files_unsafe:
  "\<not> isRegexSafe q 200 \<Longrightarrow> search_files env q Regex files = Some (replicate (length files) [])"
  by (induction files) (simp_all add: searchInFile_unsafe)

lemma searchCodebase_Inr:
  fixes args :: SearchArgs
  defines "ty \<equiv> (case arg_searchType args of None \<Rightarrow> Text | Some ty \<Rightarrow> ty)"
  assumes "searchCodebase env args = Some (Inr resp)"
  obtains files fileResults where
    "getMatchingFiles env (arg_projectPath args) (arg_filePattern args) = Some files"
    "search_files env (arg_query args) (if ty = Semantic then Text else ty) files = Some fileResults"
    "resp = \<lparr>resp_query = arg_query args,
            resp_searchType = ty,
            resp_results = take maxResults (map (\<lambda>result. result\<lparr>sr_file := path_relative env (arg_projectPath args) (sr_file result)\<rparr>) (concat fileResults)),
            totalMatches = length (concat fileResults),
            filesSearched = length files,
            filesWithMatches = card (set (map sr_file (take maxResults (map (\<lambda>result. result\<lparr>sr_file := path_relative env (arg_projectPath args) (sr_file result)\<rparr>) (concat fileResults))))),
            truncated = (length (concat fileResults) > maxResults)\<rparr>"
  using assms(2) unfolding ty_def
  by (auto simp: searchCodebase_def Let_def split: if_splits option.splits)

lemma toy_text_search:
  "searchCodebase toy_env \<lparr>arg_projectPath = js ''/proj'', arg_query = js ''a'',
       arg_searchType = None, arg_filePattern = None\<rparr> =
   Some (Inr \<lparr>resp_query = js ''a'', resp_searchType = Text,
     resp_results =
       [\<lparr>sr_file = js ''a.txt'', sr_line = 1, sr_column = 1, sr_match = js ''a'',
         sr_context = js ''ab'' @ 10 # js ''ca''\<rparr>,
        \<lparr>sr_file = js ''a.txt'', sr_line = 2, sr_column = 2, sr_match = js ''a'',
         sr_context = js ''ab'' @ 10 # js ''ca''\<rparr>],
     totalMatches = 2, filesSearched = 1, filesWithMatches = 1, truncated = False\<rparr>)"
  by (simp add: searchCodebase_def getMatchingFiles_def searchInFile_def toy_env_def
      escapeRegExp_def exec_loop.simps maxResults_def js_def Let_def upt_rec)

lemma searchCodebase_unsafe_regex:
  assumes "arg_projectPath args \<noteq> []" and "path_isAbsolute env (arg_projectPath args)"
    and "stat_isDirectory env (arg_projectPath args) = Some True"
    and "arg_query args \<noteq> []" and "trim env (arg_query args) \<noteq> []"
    and "getMatchingFiles env (arg_projectPath args) (arg_filePattern args) = Some files"
    and "arg_searchType args = Some Regex" and "\<not> isRegexSafe (arg_query args) 200"
  shows "searchCodebase env args =
     Some (Inr \<lparr>resp_query = arg_query args, resp_searchType = Regex, resp_results = [],
       totalMatches = 0, filesSearched = length files, filesWithMatches = 0, truncated = False\<rparr>)"
  using assms
  by (simp add: searchCodebase_def search_files_unsafe maxResults_def Let_def)

text \<open>
  C7. The first half holds: \<open>searchInFile\<close> never compiles a pattern that fails the check
  (\<open>searchInFile_unsafe\<close> holds for every engine). The second half does not: the \<open>throw\<close> is
  inside the \<open>try\<close> whose \<open>catch\<close> is empty, so each file contributes no result and the
  request succeeds. Here the regex search for \<open>(a+)+\<close> in \<open>/proj\<close> returns a response with
  no results instead of an error.
\<close>

theorem unsafe_regex_search_succeeds:
  "\<not> isRegexSafe (js ''(a+)+'') 200
   \<and> searchCodebase toy_env \<lparr>arg_projectPath = js ''/proj'', arg_query = js ''(a+)+'',
       arg_searchType = Some Regex, arg_filePattern = None\<rparr> =
     Some (Inr \<lparr>resp_query = js ''(a+)+'', resp_searchType = Regex, resp_results = [],
       totalMatches = 0, filesSearched = 1, filesWithMatches = 0, truncated = False\<rparr>)"
  by (simp add: searchCodebase_def getMatchingFiles_def searchInFile_def toy_env_def
      isRegexSafe_def dangerous_def nested_def lineTerminator_def maxResults_def js_def Let_def)

text \<open>
  C10. A search that returns a response returns at most 100 results, the first 100 of all
  matches in file order; \<open>totalMatches\<close> is the sum of the numbers of matches of the files
  searched, and \<open>truncated\<close> holds exactly when that total exceeds 100.
\<close>

theorem search_results_limited:
  fixes args :: SearchArgs
  defines "ty \<equiv> (case arg_searchType args of None \<Rightarrow> Text | Some ty \<Rightarrow> ty)"
  assumes "searchCodebase env args = Some (Inr resp)"
  shows "length (resp_results resp) \<le> 100
    \<and> (\<exists>files fileResults.
          getMatchingFiles env (arg_projectPath args) (arg_filePattern args) = Some files
        \<and> map (\<lambda>file. searchInFile env file (arg_query args) (if ty = Semantic then Text else ty)) files
            = map Some fileResults
        \<and> filesSearched resp = length files
        \<and> totalMatches resp = sum_list (map length fileResults)
        \<and> map sr_match (resp_results resp) = take 100 (map sr_match (concat fileResults)))
    \<and> (truncated resp \<longleftrightarrow> totalMatches resp > 100)"
proof -
  from assms(2) obtain files fileResults where
    f: "getMatchingFiles env (arg_projectPath args) (arg_filePattern args) = Some files"
    and s: "search_files env (arg_query args) (if ty = Semantic then Text else ty) files = Some fileResults"
    and r: "resp = \<lparr>resp_query = arg_query args,
            resp_searchType = ty,
            resp_results = take maxResults (map (\<lambda>result. result\<lparr>sr_file := path_relative env (arg_projectPath args) (sr_file result)\<rparr>) (concat fileResults)),
            totalMatches = length (concat fileResults),
            filesSearched = length files,
            filesWithMatches = card (set (map sr_file (take maxResults (map (\<lambda>result. result\<lparr>sr_file := path_relative env (arg_projectPath args) (sr_file result)\<rparr>) (concat fileResults))))),
            truncated = (length (concat fileResults) > maxResults)\<rparr>"
    unfolding ty_def by (rule searchCodebase_Inr)
  have 1: "length (resp_results resp) \<le> 100" by (simp add: r maxResults_def)
  have 2: "map (\<lambda>file. searchInFile env file (arg_query args) (if ty = Semantic then Text else ty)) files
            = map Some fileResults"
    using s by (simp add: search_files_Some)
  have 3: "totalMatches resp = sum_list (map length fileResults)"
    by (simp add: r length_concat)
  have 4: "map sr_match (resp_results resp) = take 100 (map sr_match (concat fileResults))"
    by (simp add: r maxResults_def take_map o_def)
  have 5: "truncated resp \<longleftrightarrow> totalMatches resp > 100" by (simp add: r maxResults_def)
  have 6: "filesSearched resp = length files" by (simp add: r)
  show ?thesis using 1 f 2 3 4 5 6 by blast
qed

theorem search_results_limited_witness:
  "(\<exists>resp. searchCodebase toy_env \<lparr>arg_projectPath = js ''/proj'', arg_query = js ''a'',
       arg_searchType = None, arg_filePattern = None\<rparr> = Some (Inr resp)
     \<and> length (resp_results resp) \<le> 100 \<and> totalMatches resp = 2 \<and> \<not> truncated resp)"
proof -
  let ?args = "\<lparr>arg_projectPath = js ''/proj'', arg_query = js ''a'',
       arg_searchType = None, arg_filePattern = None\<rparr>"
  let ?resp = "\<lparr>resp_query = js ''a'', resp_searchType = Text,
     resp_results =
       [\<lparr>sr_file = js ''a.txt'', sr_line = 1, sr_column = 1, sr_match = js ''a'',
         sr_context = js ''ab'' @ 10 # js ''ca''\<rparr>,
        \<lparr>sr_file = js ''a.txt'', sr_line = 2, sr_column = 2, sr_match = js ''a'',
         sr_context = js ''ab'' @ 10 # js ''ca''\<rparr>],
     totalMatches = 2, filesSearched = 1, filesWithMatches = 1, truncated = False\<rparr>"
  have run: "searchCodebase toy_env ?args = Some (Inr ?resp)"
    by (rule toy_text_search)
  have "length (resp_results ?resp) \<le> 100 \<and> (truncated ?resp \<longleftrightarrow> totalMatches ?resp > 100)"
    using search_results_limited [OF run] by blast
  then show ?thesis using run by simp
qed

section \<open>The cache key\<close>

text \<open>
  The key is the digest of the serialised descriptor. The lemmas below show that the
  serialisation can be read back, so two descriptors with the same serialisation are the
  same. Nothing is shown about the digest, which is the library's.
\<close>

lemma unat_small: "n < 65536 \<Longrightarrow> unat (of_nat n :: unit16) = n"
  by (simp add: unat_of_nat)

lemma unhex_hex_digit:
  assumes "n < 16"
  shows "unhex (hex_digit n) = n"
proof (cases "n < 10")
  case True
  have h: "hex_digit n = of_nat (48 + n)" using True by (simp add: hex_digit_def)
  have u: "unat (of_nat (48 + n) :: unit16) = 48 + n" using True by (intro unat_small) simp
  have "(of_nat (48 + n) :: unit16) < 58"
    unfolding word_less_nat_alt u using True by simp
  then show ?thesis unfolding h unhex_def using u by simp
next
  case False
  have h: "hex_digit n = of_nat (87 + n)" using False by (simp add: hex_digit_def)
  have u: "unat (of_nat (87 + n) :: unit16) = 87 + n" using assms by (intro unat_small) simp
  have "\<not> (of_nat (87 + n) :: unit16) < 58"
    unfolding word_less_nat_alt u by simp
  then show ?thesis unfolding h unhex_def using u by simp
qed

lemma recompose_nat:
  "(n::nat) div 4096 * 4096 + n div 256 mod 16 * 256 + n div 16 mod 16 * 16 + n mod 16 = n"
proof -
  have a: "n div 16 div 16 = n div 256" and b: "n div 256 div 16 = n div 4096"
    by (simp_all add: div_mult2_eq [symmetric])
  have 1: "n = n div 16 * 16 + n mod 16" by simp
  have 2: "n div 16 = n div 256 * 16 + n div 16 mod 16"
    using div_mult_mod_eq [of "n div 16" 16] a by simp
  have 3: "n div 256 = n div 4096 * 16 + n div 256 mod 16"
    using div_mult_mod_eq [of "n div 256" 16] b by simp
  have "n = ((n div 4096 * 16 + n div 256 mod 16) * 16 + n div 16 mod 16) * 16 + n mod 16"
    using 1 2 3 by presburger
  then show ?thesis by (simp add: algebra_simps)
qed

lemma decode_escape:
  fixes c :: unit16
  shows "(of_nat (unhex (hex_digit (unat c div 4096)) * 4096 + unhex (hex_digit (unat c div 256 mod 16)) * 256
      + unhex (hex_digit (unat c div 16 mod 16)) * 16 + unhex (hex_digit (unat c mod 16))) :: unit16) = c"
proof -
  have "unat c < 65536" using unsigned_less [of c] by simp
  then have "unat c div 4096 < 16" by simp
  then show ?thesis
    by (simp add: unhex_hex_digit recompose_nat)
qed

lemma unquote_UnicodeEscape:
  "unquote_units (UnicodeEscape c @ rest) = map_option (\<lambda>(s, r). (c # s, r)) (unquote_units rest)"
  unfolding UnicodeEscape_def
  by (simp add: decode_escape del: of_nat_add of_nat_mult)

lemma surrogate_plain:
  "leading_surrogate c \<Longrightarrow> c \<noteq> 34 \<and> c \<noteq> 92"
  "trailing_surrogate c \<Longrightarrow> c \<noteq> 34 \<and> c \<noteq> 92"
  by (auto simp: leading_surrogate_def trailing_surrogate_def)

lemma unquote_quote:
  "unquote_units (quote_units s @ 34 # r) = Some (s, r)"
proof (induction s rule: quote_units.induct)
  case 1
  then show ?case by simp
next
  case (2 c cs)
  show ?case
  proof (cases "c = 8 \<or> c = 9 \<or> c = 10 \<or> c = 12 \<or> c = 13 \<or> c = 34 \<or> c = 92")
    case True
    then have ih: "unquote_units (quote_units cs @ 34 # r) = Some (cs, r)"
      using 2 by metis
    from True show ?thesis
      by (elim disjE) (simp_all add: ih unescape_def)
  next
    case special: False
    show ?thesis
    proof (cases "c < 32")
      case True
      then have ih: "unquote_units (quote_units cs @ 34 # r) = Some (cs, r)"
        using 2 special by metis
      show ?thesis using special True
        by (simp add: unquote_UnicodeEscape ih del: unquote_units.simps)
    next
      case ctrl: False
      show ?thesis
      proof (cases "leading_surrogate c")
        case True
        show ?thesis
        proof (cases cs)
          case Nil
          then show ?thesis using special ctrl True
            by (simp add: unquote_UnicodeEscape [of c "34 # r", simplified])
        next
          case (Cons d ds)
          show ?thesis
          proof (cases "trailing_surrogate d")
            case td: True
            then have ih: "unquote_units (quote_units ds @ 34 # r) = Some (ds, r)"
              using 2 special ctrl True Cons by metis
            show ?thesis using special ctrl True Cons td surrogate_plain(1) [OF True]
                surrogate_plain(2) [OF td]
              by (simp add: ih)
          next
            case td: False
            then have ih: "unquote_units (quote_units cs @ 34 # r) = Some (cs, r)"
              using 2 special ctrl True Cons by metis
            have "quote_units (c # cs) = UnicodeEscape c @ quote_units cs"
              using special ctrl True Cons td by simp
            then show ?thesis
              by (simp add: unquote_UnicodeEscape ih del: unquote_units.simps quote_units.simps)
          qed
        qed
      next
        case lead: False
        show ?thesis
        proof (cases "trailing_surrogate c")
          case True
          then have ih: "unquote_units (quote_units cs @ 34 # r) = Some (cs, r)"
            using 2 special ctrl lead by metis
          have "quote_units (c # cs) = UnicodeEscape c @ quote_units cs"
            using special ctrl lead True by simp
          then show ?thesis
            by (simp add: unquote_UnicodeEscape ih del: unquote_units.simps quote_units.simps)
        next
          case False
          then have ih: "unquote_units (quote_units cs @ 34 # r) = Some (cs, r)"
            using 2 special ctrl lead by metis
          show ?thesis using special ctrl lead False by (simp add: ih)
        qed
      qed
    qed
  qed
qed

lemma quote_units_terminated_inj:
  assumes eq: "quote_units s @ 34 # r = quote_units s' @ 34 # r'"
  shows "s = s' \<and> r = r'"
proof -
  have "Some (s, r) = unquote_units (quote_units s @ 34 # r)"
    by (simp only: unquote_quote)
  also have "\<dots> = unquote_units (quote_units s' @ 34 # r')"
    by (simp only: eq)
  also have "\<dots> = Some (s', r')"
    by (rule unquote_quote)
  finally show ?thesis by simp
qed

lemma QuoteJSONString_inj:
  assumes "QuoteJSONString s @ r = QuoteJSONString s' @ r'"
  shows "s = s' \<and> r = r'"
proof -
  have "quote_units s @ 34 # r = quote_units s' @ 34 # r'"
    using assms unfolding QuoteJSONString_def by simp
  then show ?thesis by (rule quote_units_terminated_inj)
qed

lemma JSON_stringify_params_split:
  "JSON_stringify_params p t =
     ([123] @ QuoteJSONString (js ''projectPath'') @ [58]) @ (QuoteJSONString p @ params_tail t)"
  unfolding JSON_stringify_params_def params_tail_def by (simp only: append_assoc)

lemma params_tail_inj:
  assumes "params_tail t1 = params_tail t2"
  shows "t1 = t2"
proof (cases t1)
  case None
  show ?thesis
  proof (cases t2)
    case None
    with \<open>t1 = None\<close> show ?thesis by simp
  next
    case (Some x2)
    then have "params_tail t2 = 44 # (QuoteJSONString (js ''taskDescription'') @ [58] @ QuoteJSONString x2 @ [125])"
      unfolding params_tail_def by (simp only: option.case append_Cons append_Nil append_assoc)
    moreover have "params_tail t1 = [125]" using None unfolding params_tail_def by simp
    ultimately show ?thesis using assms by simp
  qed
next
  case (Some x1)
  then have a1: "params_tail t1 = ([44] @ QuoteJSONString (js ''taskDescription'') @ [58]) @ (QuoteJSONString x1 @ [125])"
    unfolding params_tail_def by (simp only: option.case append_assoc)
  show ?thesis
  proof (cases t2)
    case None
    then have "params_tail t2 = [125]" unfolding params_tail_def by simp
    moreover have "params_tail t1 = 44 # (QuoteJSONString (js ''taskDescription'') @ [58] @ QuoteJSONString x1 @ [125])"
      unfolding a1 by (simp only: append_Cons append_Nil append_assoc)
    ultimately show ?thesis using assms by simp
  next
    case s2: (Some x2)
    then have a2: "params_tail t2 = ([44] @ QuoteJSONString (js ''taskDescription'') @ [58]) @ (QuoteJSONString x2 @ [125])"
      unfolding params_tail_def by (simp only: option.case append_assoc)
    have "QuoteJSONString x1 @ [125] = QuoteJSONString x2 @ [125]"
      using assms unfolding a1 a2 by (simp only: same_append_eq)
    then have "x1 = x2" using QuoteJSONString_inj by blast
    then show ?thesis using Some s2 by simp
  qed
qed

lemma JSON_stringify_params_inj:
  "JSON_stringify_params p1 t1 = JSON_stringify_params p2 t2 \<longleftrightarrow> p1 = p2 \<and> t1 = t2"
proof
  assume "JSON_stringify_params p1 t1 = JSON_stringify_params p2 t2"
  then have "QuoteJSONString p1 @ params_tail t1 = QuoteJSONString p2 @ params_tail t2"
    unfolding JSON_stringify_params_split by (simp only: same_append_eq)
  then have "p1 = p2 \<and> params_tail t1 = params_tail t2"
    by (rule QuoteJSONString_inj)
  then show "p1 = p2 \<and> t1 = t2" using params_tail_inj by blast
next
  assume "p1 = p2 \<and> t1 = t2"
  then show "JSON_stringify_params p1 t1 = JSON_stringify_params p2 t2" by simp
qed

end
